theory Spec2Isabelle
  imports Main "HOL-Library.Word" "HOL-Library.Sublist"
begin

unbundle bit_operations_syntax

section \<open>Library functions used by the zdb parser\<close>

text \<open>
  Go strings are byte sequences; \<^typ>\<open>string\<close> (a list of 8-bit characters) models
  them byte for byte. The functions of this section model the parts of the Go standard
  library that \<open>GetPool\<close> and \<open>parseProp\<close> call, at the byte level.
\<close>

subsection \<open>Package strings\<close>

abbreviation tab :: char where "tab \<equiv> CHR 0x09"
abbreviation newline :: char where "newline \<equiv> CHR 0x0A"

text \<open>
  \<open>unicode.IsSpace\<close> holds for the six ASCII characters tab, line feed, vertical tab,
  form feed, carriage return and space, and for the code points U+0085, U+00A0, U+1680,
  U+2000 to U+200A, U+2028, U+2029, U+202F, U+205F and U+3000. Both the forward decoder
  (\<open>utf8.DecodeRuneInString\<close>) and the backward one (\<open>utf8.DecodeLastRuneInString\<close>)
  yield one of these code points exactly when the bytes at that end of the string are the
  UTF-8 encoding of it, so trimming white space is trimming the following byte sequences.
\<close>

definition whiteSpaceRunes :: "string list" where
  "whiteSpaceRunes =
     [[CHR 0x09], [CHR 0x0A], [CHR 0x0B], [CHR 0x0C], [CHR 0x0D], [CHR 0x20],
      [CHR 0xC2, CHR 0x85], [CHR 0xC2, CHR 0xA0],
      [CHR 0xE1, CHR 0x9A, CHR 0x80],
      [CHR 0xE2, CHR 0x80, CHR 0x80], [CHR 0xE2, CHR 0x80, CHR 0x81],
      [CHR 0xE2, CHR 0x80, CHR 0x82], [CHR 0xE2, CHR 0x80, CHR 0x83],
      [CHR 0xE2, CHR 0x80, CHR 0x84], [CHR 0xE2, CHR 0x80, CHR 0x85],
      [CHR 0xE2, CHR 0x80, CHR 0x86], [CHR 0xE2, CHR 0x80, CHR 0x87],
      [CHR 0xE2, CHR 0x80, CHR 0x88], [CHR 0xE2, CHR 0x80, CHR 0x89],
      [CHR 0xE2, CHR 0x80, CHR 0x8A],
      [CHR 0xE2, CHR 0x80, CHR 0xA8], [CHR 0xE2, CHR 0x80, CHR 0xA9],
      [CHR 0xE2, CHR 0x80, CHR 0xAF],
      [CHR 0xE2, CHR 0x81, CHR 0x9F],
      [CHR 0xE3, CHR 0x80, CHR 0x80]]"

text \<open>The number of bytes of the white-space rune a string starts (ends) with; 0 if none.\<close>

definition spaceRuneLen :: "string \<Rightarrow> nat" where
  "spaceRuneLen s =
     (case find (\<lambda>p. prefix p s) whiteSpaceRunes of None \<Rightarrow> 0 | Some p \<Rightarrow> length p)"

definition lastSpaceRuneLen :: "string \<Rightarrow> nat" where
  "lastSpaceRuneLen s =
     (case find (\<lambda>p. suffix p s) whiteSpaceRunes of None \<Rightarrow> 0 | Some p \<Rightarrow> length p)"

text \<open>\<open>strings.TrimLeftFunc(s, unicode.IsSpace)\<close> and \<open>strings.TrimRightFunc(s, unicode.IsSpace)\<close>.\<close>

function TrimLeftSpace :: "string \<Rightarrow> string" where
  "TrimLeftSpace s =
     (if spaceRuneLen s = 0 then s else TrimLeftSpace (drop (spaceRuneLen s) s))"
  by pat_completeness auto
termination
proof (relation "measure length")
  fix s :: string
  assume "spaceRuneLen s \<noteq> 0"
  then have "s \<noteq> []"
    by (auto simp: spaceRuneLen_def whiteSpaceRunes_def)
  with \<open>spaceRuneLen s \<noteq> 0\<close> show "(drop (spaceRuneLen s) s, s) \<in> measure length"
    by simp
qed simp

function TrimRightSpace :: "string \<Rightarrow> string" where
  "TrimRightSpace s =
     (if lastSpaceRuneLen s = 0 then s
      else TrimRightSpace (take (length s - lastSpaceRuneLen s) s))"
  by pat_completeness auto
termination
proof (relation "measure length")
  fix s :: string
  assume "lastSpaceRuneLen s \<noteq> 0"
  then have "s \<noteq> []"
    by (auto simp: lastSpaceRuneLen_def whiteSpaceRunes_def)
  with \<open>lastSpaceRuneLen s \<noteq> 0\<close>
  show "(take (length s - lastSpaceRuneLen s) s, s) \<in> measure length"
    by simp
qed simp

declare TrimLeftSpace.simps [simp del] TrimRightSpace.simps [simp del]

text \<open>\<open>strings.TrimSpace\<close>: white space is cut from the left, then from the right.\<close>

definition TrimSpace :: "string \<Rightarrow> string" where
  "TrimSpace s = TrimRightSpace (TrimLeftSpace s)"

text \<open>\<open>strings.TrimLeft(s, cutset)\<close> and \<open>strings.TrimRight(s, cutset)\<close> for a cutset of
  ASCII characters, which is how the parser calls them.\<close>

definition TrimLeft :: "string \<Rightarrow> string \<Rightarrow> string" where
  "TrimLeft s cutset = dropWhile (\<lambda>c. c \<in> set cutset) s"

definition TrimRight :: "string \<Rightarrow> string \<Rightarrow> string" where
  "TrimRight s cutset = rev (dropWhile (\<lambda>c. c \<in> set cutset) (rev s))"

text \<open>\<open>strings.Split(s, sep)\<close> for a separator of one byte: all the pieces, at least one.\<close>

fun Split :: "string \<Rightarrow> char \<Rightarrow> string list" where
  "Split [] sep = [[]]"
| "Split (c # s) sep =
     (if c = sep then [] # Split s sep
      else (case Split s sep of [] \<Rightarrow> [[c]] | w # ws \<Rightarrow> (c # w) # ws))"

text \<open>\<open>strings.SplitN(s, sep, 2)\<close> for a separator of one byte: the string itself when the
  separator does not occur, otherwise the text before its first occurrence and the text
  after it.\<close>

definition SplitN2 :: "string \<Rightarrow> char \<Rightarrow> string list" where
  "SplitN2 s sep =
     (if sep \<in> set s then [takeWhile (\<lambda>c. c \<noteq> sep) s, tl (dropWhile (\<lambda>c. c \<noteq> sep) s)]
      else [s])"

text \<open>\<open>strings.Join(elems, sep)\<close>.\<close>

fun Join :: "string list \<Rightarrow> string \<Rightarrow> string" where
  "Join [] sep = []"
| "Join [x] sep = x"
| "Join (x # y # ys) sep = x @ sep @ Join (y # ys) sep"

subsection \<open>Packages strconv and fmt: scanning an integer\<close>

datatype NumErrKind = ErrSyntax | ErrRange

text \<open>The errors \<open>fmt.Sscan\<close> returns for an integer operand: \<open>io.EOF\<close> when the input
  ends where the number or its digits have to start (the panic of \<open>notEOF\<close>), the
  scanner's own "expected integer", and a \<open>*strconv.NumError\<close> (function, input, kind).\<close>

datatype scan_error =
    EOF
  | ExpectedInteger
  | NumError string string NumErrKind

definition binaryDigits :: string where "binaryDigits = ''01''"
definition octalDigits :: string where "octalDigits = ''01234567''"
definition decimalDigits :: string where "decimalDigits = ''0123456789''"
definition hexadecimalDigits :: string where "hexadecimalDigits = ''0123456789aAbBcCdDeEfF''"

text \<open>\<open>lower(c) = c | ('x' - 'X')\<close> of strconv, on the byte's number.\<close>

definition lower :: "char \<Rightarrow> nat" where
  "lower c = (of_char c :: nat) OR 32"

text \<open>The value of one digit in \<open>strconv.ParseUint\<close>; \<open>None\<close> is its syntax error.\<close>

definition digitVal :: "char \<Rightarrow> nat option" where
  "digitVal c =
     (if (48::nat) \<le> of_char c \<and> (of_char c :: nat) \<le> 57 then Some (of_char c - 48)
      else if 97 \<le> lower c \<and> lower c \<le> 122 then Some (lower c - 97 + 10)
      else None)"

text \<open>The digit loop of \<open>strconv.ParseUint\<close> with bit size 64. It returns the number and
  whether an underscore was seen; \<open>base0\<close> says that the base was given as 0.\<close>

fun ParseUint_digits :: "nat \<Rightarrow> bool \<Rightarrow> string \<Rightarrow> nat \<Rightarrow> bool \<Rightarrow> NumErrKind + nat \<times> bool" where
  "ParseUint_digits base base0 [] n underscores = Inr (n, underscores)"
| "ParseUint_digits base base0 (c # s) n underscores =
     (if c = CHR ''_'' \<and> base0 then ParseUint_digits base base0 s n True
      else (case digitVal c of
              None \<Rightarrow> Inl ErrSyntax
            | Some d \<Rightarrow>
                if d \<ge> base then Inl ErrSyntax
                else if n \<ge> (2 ^ 64 - 1) div base + 1 then Inl ErrRange
                else if n * base + d > 2 ^ 64 - 1 then Inl ErrRange
                else ParseUint_digits base base0 s (n * base + d) underscores))"

text \<open>\<open>strconv.underscoreOK\<close>: underscores only between digits or after a base prefix. The
  state is \<open>CHR ''0''\<close> after a digit, \<open>CHR ''_''\<close> after an underscore and \<open>CHR ''!''\<close>
  after anything else.\<close>

fun underscoreOK_loop :: "bool \<Rightarrow> char \<Rightarrow> string \<Rightarrow> bool" where
  "underscoreOK_loop hex i [] = (i \<noteq> CHR ''_'')"
| "underscoreOK_loop hex i (c # s) =
     (if ((48::nat) \<le> of_char c \<and> (of_char c :: nat) \<le> 57) \<or> (hex \<and> 97 \<le> lower c \<and> lower c \<le> 102)
      then underscoreOK_loop hex (CHR ''0'') s
      else if c = CHR ''_'' then (if i \<noteq> CHR ''0'' then False else underscoreOK_loop hex (CHR ''_'') s)
      else if i = CHR ''_'' then False
      else underscoreOK_loop hex (CHR ''!'') s)"

definition underscoreOK :: "string \<Rightarrow> bool" where
  "underscoreOK s0 =
     (let s = (case s0 of c # r \<Rightarrow> if c = CHR ''-'' \<or> c = CHR ''+'' then r else s0 | [] \<Rightarrow> s0)
      in case s of
           c # d # r \<Rightarrow>
             if c = CHR ''0'' \<and> (lower d = 98 \<or> lower d = 111 \<or> lower d = 120)
             then underscoreOK_loop (lower d = 120) (CHR ''0'') r
             else underscoreOK_loop False (CHR ''^'') s
         | _ \<Rightarrow> underscoreOK_loop False (CHR ''^'') s)"

text \<open>\<open>strconv.ParseUint(s, 0, 64)\<close>: the base comes from the prefix of the input.\<close>

definition ParseUint :: "string \<Rightarrow> NumErrKind + nat" where
  "ParseUint s0 =
     (if s0 = [] then Inl ErrSyntax
      else
        let (base, s) =
              (if hd s0 = CHR ''0'' then
                 (if length s0 \<ge> 3 \<and> lower (s0 ! 1) = 98 then (2, drop 2 s0)
                  else if length s0 \<ge> 3 \<and> lower (s0 ! 1) = 111 then (8, drop 2 s0)
                  else if length s0 \<ge> 3 \<and> lower (s0 ! 1) = 120 then (16, drop 2 s0)
                  else (8, drop 1 s0))
               else (10, s0))
        in case ParseUint_digits base True s 0 False of
             Inl e \<Rightarrow> Inl e
           | Inr (n, underscores) \<Rightarrow>
               if underscores \<and> \<not> underscoreOK s0 then Inl ErrSyntax else Inr n)"

text \<open>\<open>strconv.ParseInt(s, 0, 64)\<close>: a sign, then \<open>ParseUint\<close>, then the signed range.\<close>

definition ParseInt :: "string \<Rightarrow> NumErrKind + int" where
  "ParseInt s0 =
     (if s0 = [] then Inl ErrSyntax
      else
        let neg = (hd s0 = CHR ''-'');
            s = (if hd s0 = CHR ''+'' \<or> hd s0 = CHR ''-'' then tl s0 else s0)
        in case ParseUint s of
             Inl ErrSyntax \<Rightarrow> Inl ErrSyntax
           | Inl ErrRange \<Rightarrow> Inl ErrRange
           | Inr un \<Rightarrow>
               if \<not> neg \<and> un \<ge> 2 ^ 63 then Inl ErrRange
               else if neg \<and> un > 2 ^ 63 then Inl ErrRange
               else Inr (if neg then - int un else int un))"

text \<open>\<open>(*ss).scanBasePrefix\<close>: the characters taken into the token, the digits that may
  follow, whether a digit (the zero) was found, and the rest of the input.\<close>

definition scanBasePrefix :: "string \<Rightarrow> string \<times> string \<times> bool \<times> string" where
  "scanBasePrefix s =
     (case s of
        [] \<Rightarrow> ([], decimalDigits @ ''_'', False, s)
      | c # r \<Rightarrow>
          if c \<noteq> CHR ''0'' then ([], decimalDigits @ ''_'', False, s)
          else (case r of
                  [] \<Rightarrow> (''0'', octalDigits @ ''_'', True, r)
                | d # r' \<Rightarrow>
                    if d \<in> set ''bB'' then ([c, d], binaryDigits @ ''_'', True, r')
                    else if d \<in> set ''oO'' then ([c, d], octalDigits @ ''_'', True, r')
                    else if d \<in> set ''xX'' then ([c, d], hexadecimalDigits @ ''_'', True, r')
                    else (''0'', octalDigits @ ''_'', True, r)))"

text \<open>\<open>(*ss).scanNumber\<close>: the token, that is the buffer so far and the longest run of
  digits; without a digit so far the input must start with one.\<close>

definition scanNumber :: "string \<Rightarrow> string \<Rightarrow> bool \<Rightarrow> string \<Rightarrow> scan_error + string" where
  "scanNumber buf digits haveDigits s =
     (if \<not> haveDigits \<and> s = [] then Inl EOF
      else if \<not> haveDigits \<and> hd s \<notin> set digits then Inl ExpectedInteger
      else Inr (buf @ takeWhile (\<lambda>c. c \<in> set digits) s))"

text \<open>
  \<open>fmt.Sscan(val, &x)\<close> for \<open>x\<close> of type \<open>int\<close> (\<open>(*ss).scanInt\<close> with verb \<open>v\<close>) and of
  type \<open>uint64\<close> (\<open>(*ss).scanUint\<close>). Go's \<open>int\<close> is taken as 64 bits wide, as it is on the
  platforms ZFS runs on; then the scanner's own overflow check after \<open>ParseInt\<close> never
  fires. The input after the token is not looked at: \<open>Sscan\<close> of \<open>12abc\<close> is 12.
\<close>

definition Sscan_int :: "string \<Rightarrow> scan_error + int" where
  "Sscan_int val =
     (let s = TrimLeftSpace val in
      if s = [] then Inl EOF
      else
        let (sgn, s1) = (if hd s \<in> set ''+-'' then ([hd s], tl s) else ([], s));
            (pre, digits, haveDigits, s2) = scanBasePrefix s1
        in case scanNumber (sgn @ pre) digits haveDigits s2 of
             Inl e \<Rightarrow> Inl e
           | Inr tok \<Rightarrow>
               (case ParseInt tok of
                  Inl k \<Rightarrow> Inl (NumError ''ParseInt'' tok k)
                | Inr i \<Rightarrow> Inr i))"

definition Sscan_uint64 :: "string \<Rightarrow> scan_error + 64 word" where
  "Sscan_uint64 val =
     (let s = TrimLeftSpace val in
      if s = [] then Inl EOF
      else
        let (pre, digits, haveDigits, s2) = scanBasePrefix s
        in case scanNumber pre digits haveDigits s2 of
             Inl e \<Rightarrow> Inl e
           | Inr tok \<Rightarrow>
               (case ParseUint tok of
                  Inl k \<Rightarrow> Inl (NumError ''ParseUint'' tok k)
                | Inr n \<Rightarrow> Inr (of_nat n)))"

section \<open>The data model\<close>

text \<open>
  \<open>ZDBPoolChild\<close> is a recursive struct: a node has scalar fields, a property map and a
  slice of child nodes. The scalar fields and the map form the record
  \<open>ZDBPoolChildFields\<close>; the datatype \<open>ZDBPoolChild\<close> adds the children. A Go \<open>int\<close> is
  an \<^typ>\<open>int\<close> (the scanner keeps it within 64 bits), a \<open>uint64\<close> a \<^typ>\<open>64 word\<close>,
  and \<open>map[string]string\<close> a map \<^typ>\<open>string \<rightharpoonup> string\<close>, the nil map being the empty one.
  Field names that occur in two structs are told apart by the name of the type, as in
  \<open>ZDBPoolChildFields.GUID\<close> and \<open>ZDBPool.GUID\<close>.
\<close>

record ZDBPoolChildFields =
  Type :: string
  ID :: int
  GUID :: "64 word"
  Path :: string
  WholeDisk :: int
  MetaslabArray :: int
  MetaslabShift :: int
  Ashift :: int
  Asize :: "64 word"
  IsLog :: int
  CreateTXG :: "64 word"
  Properties :: "string \<rightharpoonup> string"

datatype ZDBPoolChild = ZDBPoolChild (childFields: ZDBPoolChildFields) (Children: "ZDBPoolChild list")

record ZDBPool =
  Name :: string
  GUID :: string
  Version :: string
  Children :: "ZDBPoolChild list"

text \<open>Times are nanoseconds on the clock of \<open>time.Now\<close>, durations nanoseconds.\<close>

type_synonym time = int
type_synonym duration = int

record zdbCacheEntry =
  pool :: ZDBPool
  guid :: string
  expiry :: time

text \<open>
  The errors \<open>GetPool\<close> returns: the \<open>*CmdError\<close> of \<open>RunBytes\<close> (command, arguments, the
  runner's error, standard error, the combined command line),
  \<open>fmt.Errorf("no output from zdb for pool %s", name)\<close>, and
  \<open>fmt.Errorf("failed to parse <field>: %w", err)\<close> of \<open>parseProp\<close>.
\<close>

datatype error =
    CmdError string "string list" string string string
  | NoOutputError string
  | ParsePropError string scan_error

subsection \<open>The text of an error\<close>

definition scan_error_text :: "scan_error \<Rightarrow> string" where
  "scan_error_text e =
     (case e of
        EOF \<Rightarrow> ''EOF''
      | ExpectedInteger \<Rightarrow> ''expected integer''
      | NumError fn num k \<Rightarrow>
          ''strconv.'' @ fn @ '': parsing '' @ [CHR 0x22] @ num @ [CHR 0x22] @ '': '' @
          (case k of ErrSyntax \<Rightarrow> ''invalid syntax'' | ErrRange \<Rightarrow> ''value out of range''))"

text \<open>The method \<open>Error()\<close>: of \<open>*CmdError\<close> with its \<open>ExitErr\<close> set, as \<open>RunBytes\<close> builds
  it, and of the two errors made by \<open>fmt.Errorf\<close>.\<close>

definition Error :: "error \<Rightarrow> string" where
  "Error e =
     (case e of
        CmdError c args exitErr stderr combined \<Rightarrow>
          combined @ '' failed: '' @ exitErr @ '' (stderr: '' @ TrimSpace stderr @ '')''
      | NoOutputError name \<Rightarrow> ''no output from zdb for pool '' @ name
      | ParsePropError field err \<Rightarrow> ''failed to parse '' @ field @ '': '' @ scan_error_text err)"

section \<open>The parser\<close>

subsection \<open>parseLine and parseProp\<close>

definition parseLine :: "ZDBPool \<Rightarrow> string \<Rightarrow> string \<Rightarrow> ZDBPool" where
  "parseLine p prop val =
     (if prop = ''version'' then p\<lparr>Version := val\<rparr>
      else if prop = ''name'' then p\<lparr>Name := val\<rparr>
      else p)"

text \<open>
  \<open>parseProp\<close> changes its receiver in place and returns an error or nil: the model
  returns the node after the call and the error. The property map is written before the
  typed conversion, so it holds the entry also when the conversion fails; a failed
  \<open>Sscan\<close> leaves the typed field as it was.
\<close>

definition parseProp :: "ZDBPoolChild \<Rightarrow> string \<Rightarrow> string \<Rightarrow> ZDBPoolChild \<times> error option" where
  "parseProp c prop val =
     (let f = (childFields c)\<lparr>Properties := (Properties (childFields c))(prop \<mapsto> val)\<rparr>;
          cs = ZDBPoolChild.Children c
      in
      if prop = ''type'' then (ZDBPoolChild (f\<lparr>Type := val\<rparr>) cs, None)
      else if prop = ''id'' then
        (case Sscan_int val of
           Inl err \<Rightarrow> (ZDBPoolChild f cs, Some (ParsePropError ''id'' err))
         | Inr v \<Rightarrow> (ZDBPoolChild (f\<lparr>ID := v\<rparr>) cs, None))
      else if prop = ''guid'' then
        (case Sscan_uint64 val of
           Inl err \<Rightarrow> (ZDBPoolChild f cs, Some (ParsePropError ''guid'' err))
         | Inr v \<Rightarrow> (ZDBPoolChild (f\<lparr>ZDBPoolChildFields.GUID := v\<rparr>) cs, None))
      else if prop = ''path'' then (ZDBPoolChild (f\<lparr>Path := val\<rparr>) cs, None)
      else if prop = ''whole_disk'' then
        (case Sscan_int val of
           Inl err \<Rightarrow> (ZDBPoolChild f cs, Some (ParsePropError ''whole_disk'' err))
         | Inr v \<Rightarrow> (ZDBPoolChild (f\<lparr>WholeDisk := v\<rparr>) cs, None))
      else if prop = ''metaslab_array'' then
        (case Sscan_int val of
           Inl err \<Rightarrow> (ZDBPoolChild f cs, Some (ParsePropError ''metaslab_array'' err))
         | Inr v \<Rightarrow> (ZDBPoolChild (f\<lparr>MetaslabArray := v\<rparr>) cs, None))
      else if prop = ''metaslab_shift'' then
        (case Sscan_int val of
           Inl err \<Rightarrow> (ZDBPoolChild f cs, Some (ParsePropError ''metaslab_shift'' err))
         | Inr v \<Rightarrow> (ZDBPoolChild (f\<lparr>MetaslabShift := v\<rparr>) cs, None))
      else if prop = ''ashift'' then
        (case Sscan_int val of
           Inl err \<Rightarrow> (ZDBPoolChild f cs, Some (ParsePropError ''ashift'' err))
         | Inr v \<Rightarrow> (ZDBPoolChild (f\<lparr>Ashift := v\<rparr>) cs, None))
      else if prop = ''asize'' then
        (case Sscan_uint64 val of
           Inl err \<Rightarrow> (ZDBPoolChild f cs, Some (ParsePropError ''asize'' err))
         | Inr v \<Rightarrow> (ZDBPoolChild (f\<lparr>Asize := v\<rparr>) cs, None))
      else if prop = ''is_log'' then
        (case Sscan_int val of
           Inl err \<Rightarrow> (ZDBPoolChild f cs, Some (ParsePropError ''is_log'' err))
         | Inr v \<Rightarrow> (ZDBPoolChild (f\<lparr>IsLog := v\<rparr>) cs, None))
      else if prop = ''create_txg'' then
        (case Sscan_uint64 val of
           Inl err \<Rightarrow> (ZDBPoolChild f cs, Some (ParsePropError ''create_txg'' err))
         | Inr v \<Rightarrow> (ZDBPoolChild (f\<lparr>CreateTXG := v\<rparr>) cs, None))
      else (ZDBPoolChild f cs, None))"

subsection \<open>Pointers into the tree\<close>

text \<open>
  A \<open>*ZDBPoolChild\<close> on the stack points at an element of a \<open>Children\<close> slice. It is
  modelled by the indices that lead to the element from \<open>pool.Children\<close>. The code appends
  to a slice only through the frame on top of the stack (or to \<open>pool.Children\<close> when the
  stack is empty), and every pointer into that slice was pushed above that frame and is
  popped by then: no frame on the stack points into an array that \<open>append\<close> may move, and
  writing through a pointer is updating the tree at its position. A list of indices that
  addresses no node does not arise on the stack (lemma \<open>parseLines_wf\<close>); there \<open>getChild\<close>
  is \<open>None\<close> and \<open>updChild\<close> changes nothing.
\<close>

type_synonym childRef = "nat list"

fun getChild :: "ZDBPoolChild list \<Rightarrow> childRef \<Rightarrow> ZDBPoolChild option" where
  "getChild cs [] = None"
| "getChild cs (i # r) =
     (if i < length cs
      then (if r = [] then Some (cs ! i) else getChild (ZDBPoolChild.Children (cs ! i)) r)
      else None)"

fun updChild :: "(ZDBPoolChild \<Rightarrow> ZDBPoolChild) \<Rightarrow> ZDBPoolChild list \<Rightarrow> childRef \<Rightarrow> ZDBPoolChild list" where
  "updChild f cs [] = cs"
| "updChild f cs (i # r) =
     (if i < length cs
      then cs[i := (if r = [] then f (cs ! i)
                    else ZDBPoolChild (childFields (cs ! i)) (updChild f (ZDBPoolChild.Children (cs ! i)) r))]
      else cs)"

text \<open>\<open>parent.Children = append(parent.Children, newChild)\<close>.\<close>

definition appendChild :: "ZDBPoolChild \<Rightarrow> ZDBPoolChild \<Rightarrow> ZDBPoolChild" where
  "appendChild newChild parent =
     ZDBPoolChild (childFields parent) (ZDBPoolChild.Children parent @ [newChild])"

text \<open>\<open>len(parent.Children)\<close> read through the pointer.\<close>

definition numChildren :: "ZDBPoolChild list \<Rightarrow> childRef \<Rightarrow> nat" where
  "numChildren cs r =
     (case getChild cs r of None \<Rightarrow> 0 | Some c \<Rightarrow> length (ZDBPoolChild.Children c))"

subsection \<open>The loop of GetPool over the lines\<close>

record childFrame =
  child :: childRef
  indent :: nat

text \<open>The stack is a Go slice: its top is the last element.\<close>

function popFrames :: "nat \<Rightarrow> childFrame list \<Rightarrow> childFrame list" where
  "popFrames d stack =
     (if length stack > 0 \<and> d \<le> indent (last stack) then popFrames d (butlast stack)
      else stack)"
  by pat_completeness auto
termination
  by (relation "measure (\<lambda>(d, stack). length stack)") auto

declare popFrames.simps [simp del]

text \<open>The head of the loop body: \<open>None\<close> for a line the loop skips (blank, or without a
  colon), otherwise the number of leading tabs, the property and the value.\<close>

definition lineFields :: "string \<Rightarrow> (nat \<times> string \<times> string) option" where
  "lineFields rawLine =
     (if TrimSpace rawLine = [] then None
      else
        let ind = length (takeWhile (\<lambda>r. r = tab) rawLine);
            trimmed = TrimLeft rawLine [tab, CHR '' ''];
            parts = SplitN2 trimmed (CHR '':'')
        in if length parts \<noteq> 2 then None
           else Some (ind, TrimSpace (parts ! 0), TrimSpace (parts ! 1)))"

text \<open>The new node of a \<open>type\<close> line; the fields the literal leaves out are zero.\<close>

definition newChild :: "string \<Rightarrow> ZDBPoolChild" where
  "newChild val =
     ZDBPoolChild
       \<lparr>Type = val, ID = 0, ZDBPoolChildFields.GUID = 0, Path = [], WholeDisk = 0,
        MetaslabArray = 0, MetaslabShift = 0, Ashift = 0, Asize = 0, IsLog = 0,
        CreateTXG = 0, Properties = [''type'' \<mapsto> val]\<rparr> []"

text \<open>The rest of the loop body, on the pool under construction and the stack.\<close>

definition processFields ::
  "ZDBPool \<times> childFrame list \<Rightarrow> nat \<times> string \<times> string \<Rightarrow> error + ZDBPool \<times> childFrame list" where
  "processFields st l =
     (case (st, l) of ((p, stack), (ind, prop, val)) \<Rightarrow>
        if length stack = 0 \<and> (prop = ''version'' \<or> prop = ''name'') then
          Inr (parseLine p prop val, stack)
        else if prop = ''type'' then
          (let stack1 = popFrames ind stack in
           if length stack1 = 0 then
             (let cs = Children p @ [newChild val]
              in Inr (p\<lparr>Children := cs\<rparr>, stack1 @ [\<lparr>child = [length cs - 1], indent = ind\<rparr>]))
           else
             (let parent = child (last stack1);
                  cs = updChild (appendChild (newChild val)) (Children p) parent
              in Inr (p\<lparr>Children := cs\<rparr>,
                      stack1 @ [\<lparr>child = parent @ [numChildren cs parent - 1], indent = ind\<rparr>])))
        else if length stack = 0 then Inr (p, stack)
        else
          (let current = child (last stack) in
           case getChild (Children p) current of
             None \<Rightarrow> Inr (p, stack)
           | Some c \<Rightarrow>
               (case parseProp c prop val of
                  (c', Some err) \<Rightarrow> Inl err
                | (c', None) \<Rightarrow> Inr (p\<lparr>Children := updChild (\<lambda>_. c') (Children p) current\<rparr>, stack))))"

definition processLine ::
  "ZDBPool \<times> childFrame list \<Rightarrow> string \<Rightarrow> error + ZDBPool \<times> childFrame list" where
  "processLine st rawLine =
     (case lineFields rawLine of None \<Rightarrow> Inr st | Some l \<Rightarrow> processFields st l)"

fun parseLines ::
  "ZDBPool \<times> childFrame list \<Rightarrow> string list \<Rightarrow> error + ZDBPool \<times> childFrame list" where
  "parseLines st [] = Inr st"
| "parseLines st (rawLine # lines) =
     (case processLine st rawLine of Inl err \<Rightarrow> Inl err | Inr st' \<Rightarrow> parseLines st' lines)"

text \<open>The pool before the first line, and the empty stack.\<close>

definition initState :: "string \<Rightarrow> string \<Rightarrow> ZDBPool \<times> childFrame list" where
  "initState name currentGUID =
     (\<lparr>Name = name, GUID = currentGUID, Version = [], Children = []\<rparr>, [])"

section \<open>Running zdb\<close>

text \<open>
  A \<open>Runner\<close> runs a command: from the program's name and its arguments it yields what the
  command wrote to standard output and to standard error, and the error of the run, if
  any. A nil \<open>Runner\<close> stands for \<open>LocalRunner\<close>, which \<open>withDefaults\<close> puts in its place: in
  the model the field always holds the function that runs the command.
\<close>

type_synonym Runner = "string \<Rightarrow> string list \<Rightarrow> string \<times> string \<times> string option"

record Options =
  Sudo :: bool
  Runner :: Runner
  ZFSBin :: string
  ZpoolBin :: string
  ZDBBin :: string
  ZDBCacheTTLSeconds :: "32 word"

record Cmd =
  Bin :: string
  Sudo :: bool
  Runner :: Runner

record zdb =
  cmd :: Cmd
  cacheTTL :: duration

text \<open>Of the three parts of a \<open>Client\<close> the model keeps the zdb one.\<close>

record Client =
  ZDB :: zdb

definition zdbArgs :: "string list" where
  "zdbArgs = [''-C'']"

text \<open>The program and the arguments \<open>RunBytes\<close> hands to the runner.\<close>

definition invocation :: "Cmd \<Rightarrow> string list \<Rightarrow> string \<times> string list" where
  "invocation c args = (if Sudo c then (''sudo'', Bin c # args) else (Bin c, args))"

definition RunBytes :: "Cmd \<Rightarrow> string list \<Rightarrow> error + string \<times> string" where
  "RunBytes c args =
     (case invocation c args of (name, args') \<Rightarrow>
        let combined = name @ '' '' @ Join args' '' '' in
        case Runner c name args' of
          (stdout, stderr, Some err) \<Rightarrow> Inl (CmdError name args' err stderr combined)
        | (stdout, stderr, None) \<Rightarrow> Inr (stdout, stderr))"

definition zdbOutput :: "zdb \<Rightarrow> string list \<Rightarrow> error + string list" where
  "zdbOutput z args =
     (case RunBytes (cmd z) args of
        Inl err \<Rightarrow> Inl err
      | Inr (stdout, stderr) \<Rightarrow>
          let text = TrimRight stdout [newline]
          in if text = [] then Inr [] else Inr (Split text newline))"

section \<open>GetPool and its cache\<close>

text \<open>
  \<open>GetPool\<close> reads and writes the package-level map \<open>zdbCache\<close>, reads the clock at most
  twice (\<open>time.Now()\<close> at the lookup and again when it stores) and runs zdb at most once.
  The model takes the map and the two clock readings as arguments and returns, with the
  result of the call, the map after the call and the commands it ran. The lock around the
  map is not modelled: one call is followed on its own.
\<close>

record GetPoolOutcome =
  returned :: "error + ZDBPool"
  zdbCache :: "string \<rightharpoonup> zdbCacheEntry"
  runs :: "(string \<times> string list) list"

definition cacheKey :: "string \<Rightarrow> string \<Rightarrow> string" where
  "cacheKey name currentGUID =
     (if currentGUID \<noteq> [] then name @ ''|'' @ currentGUID else name)"

text \<open>The lookup under the read lock: the pool of a live entry.\<close>

definition cacheLookup ::
  "bool \<Rightarrow> (string \<rightharpoonup> zdbCacheEntry) \<Rightarrow> string \<Rightarrow> time \<Rightarrow> ZDBPool option" where
  "cacheLookup cacheEnabled cache key now =
     (if cacheEnabled then
        (case cache key of
           Some entry \<Rightarrow> if now < expiry entry then Some (pool entry) else None
         | None \<Rightarrow> None)
      else None)"

definition GetPool ::
  "zdb \<Rightarrow> time \<Rightarrow> time \<Rightarrow> (string \<rightharpoonup> zdbCacheEntry) \<Rightarrow> string \<Rightarrow> string \<Rightarrow> GetPoolOutcome" where
  "GetPool z nowLookup nowStore cache name currentGUID =
     (let cacheEnabled = cacheTTL z > 0;
          key = cacheKey name currentGUID
      in
      case cacheLookup cacheEnabled cache key nowLookup of
        Some p \<Rightarrow> \<lparr>returned = Inr p, zdbCache = cache, runs = []\<rparr>
      | None \<Rightarrow>
          (let args = zdbArgs @ [name];
               ran = [invocation (cmd z) args]
           in
           case zdbOutput z args of
             Inl err \<Rightarrow> \<lparr>returned = Inl err, zdbCache = cache, runs = ran\<rparr>
           | Inr lines \<Rightarrow>
               if length lines = 0 then
                 \<lparr>returned = Inl (NoOutputError name), zdbCache = cache, runs = ran\<rparr>
               else
                 (case parseLines (initState name currentGUID) lines of
                    Inl err \<Rightarrow> \<lparr>returned = Inl err, zdbCache = cache, runs = ran\<rparr>
                  | Inr (p, stack) \<Rightarrow>
                      \<lparr>returned = Inr p,
                       zdbCache =
                         (if cacheEnabled
                          then cache(key \<mapsto> \<lparr>pool = p, guid = currentGUID,
                                              expiry = nowStore + cacheTTL z\<rparr>)
                          else cache),
                       runs = ran\<rparr>)))"

subsection \<open>NewClient\<close>

text \<open>
  \<open>ZDBCacheTTLSeconds\<close> is an \<open>int32\<close>, read as a signed number; \<open>time.Second\<close> is
  \<open>10^9\<close> nanoseconds and \<open>5 * time.Minute\<close> is \<open>3 * 10^11\<close>. The product stays within
  the 64 bits of a \<open>time.Duration\<close>.
\<close>

definition NewClient :: "Options \<Rightarrow> Client" where
  "NewClient opts0 =
     (let opts = (if ZFSBin opts0 = [] then opts0\<lparr>ZFSBin := ''zfs''\<rparr> else opts0);
          opts = (if ZpoolBin opts = [] then opts\<lparr>ZpoolBin := ''zpool''\<rparr> else opts);
          opts = (if ZDBBin opts = [] then opts\<lparr>ZDBBin := ''zdb''\<rparr> else opts);
          zdbCmd = \<lparr>Bin = ZDBBin opts, Sudo = Options.Sudo opts, Runner = Options.Runner opts\<rparr>;
          zdbCacheTTL = (if sint (ZDBCacheTTLSeconds opts) < 0 then 5 * 60000000000
                         else sint (ZDBCacheTTLSeconds opts) * 1000000000)
      in \<lparr>ZDB = \<lparr>cmd = zdbCmd, cacheTTL = zdbCacheTTL\<rparr>\<rparr>)"

section \<open>Notions the statements use\<close>

text \<open>
  A state of the loop is well formed when every frame of the stack points at a node of
  the tree and the recorded depths grow strictly from the bottom of the stack to its top.
\<close>

definition wfState :: "ZDBPool \<times> childFrame list \<Rightarrow> bool" where
  "wfState st =
     (case st of (p, stack) \<Rightarrow>
        list_all (\<lambda>f. getChild (Children p) (child f) \<noteq> None) stack \<and>
        sorted_wrt (<) (map indent stack))"

text \<open>The error of the typed conversion that \<open>parseProp\<close> applies to the value of a
  property, if it applies one and it fails: the nine typed fields, by their types.\<close>

definition conversionError :: "string \<Rightarrow> string \<Rightarrow> scan_error option" where
  "conversionError prop val =
     (if prop \<in> set [''id'', ''whole_disk'', ''metaslab_array'', ''metaslab_shift'',
                       ''ashift'', ''is_log'']
      then (case Sscan_int val of Inl err \<Rightarrow> Some err | Inr v \<Rightarrow> None)
      else if prop \<in> set [''guid'', ''asize'', ''create_txg'']
      then (case Sscan_uint64 val of Inl err \<Rightarrow> Some err | Inr v \<Rightarrow> None)
      else None)"

text \<open>A \<open>type\<close> line; the same line at another depth; two lines that differ at most in
  their depth, and not at all when they are \<open>type\<close> lines.\<close>

definition isTypeLine :: "string \<Rightarrow> bool" where
  "isTypeLine rawLine =
     (case lineFields rawLine of None \<Rightarrow> False | Some (d, prop, val) \<Rightarrow> prop = ''type'')"

definition setIndent :: "nat \<Rightarrow> string \<Rightarrow> string" where
  "setIndent k rawLine = replicate k tab @ dropWhile (\<lambda>r. r = tab) rawLine"

definition reindented :: "string \<Rightarrow> string \<Rightarrow> bool" where
  "reindented l l' =
     (if isTypeLine l then l' = l
      else dropWhile (\<lambda>r. r = tab) l' = dropWhile (\<lambda>r. r = tab) l)"

text \<open>The shape of a tree: the types of its nodes and how they nest.\<close>

datatype shape = Shape string "shape list"

fun shapeOf :: "ZDBPoolChild \<Rightarrow> shape" where
  "shapeOf (ZDBPoolChild f cs) = Shape (Type f) (map shapeOf cs)"

subsection \<open>Test fixtures\<close>

text \<open>\<open>testutil.ZDBOutput\<close>: thirteen lines, joined by line feeds.\<close>

definition ZDBOutputLines :: "string list" where
  "ZDBOutputLines =
     [''version: 5000'',
      ''name: tank'',
      [tab] @ ''type: root'',
      [tab, tab] @ ''id: 0'',
      [tab, tab] @ ''guid: 12345678901234567890'',
      [tab, tab] @ ''path: /dev/ada0p3'',
      [tab, tab] @ ''whole_disk: 0'',
      [tab, tab] @ ''metaslab_array: 71'',
      [tab, tab] @ ''metaslab_shift: 24'',
      [tab, tab] @ ''ashift: 9'',
      [tab, tab] @ ''asize: 10737418240'',
      [tab, tab] @ ''is_log: 0'',
      [tab, tab] @ ''create_txg: 4'']"

definition ZDBOutput :: string where
  "ZDBOutput = Join ZDBOutputLines [newline]"

text \<open>The node that the thirteen lines describe.\<close>

definition ZDBOutputRoot :: ZDBPoolChild where
  "ZDBOutputRoot =
     ZDBPoolChild
       \<lparr>Type = ''root'', ID = 0, ZDBPoolChildFields.GUID = 12345678901234567890,
        Path = ''/dev/ada0p3'', WholeDisk = 0, MetaslabArray = 71, MetaslabShift = 24,
        Ashift = 9, Asize = 10737418240, IsLog = 0, CreateTXG = 4,
        Properties =
          [''type'' \<mapsto> ''root'', ''id'' \<mapsto> ''0'', ''guid'' \<mapsto> ''12345678901234567890'',
           ''path'' \<mapsto> ''/dev/ada0p3'', ''whole_disk'' \<mapsto> ''0'', ''metaslab_array'' \<mapsto> ''71'',
           ''metaslab_shift'' \<mapsto> ''24'', ''ashift'' \<mapsto> ''9'', ''asize'' \<mapsto> ''10737418240'',
           ''is_log'' \<mapsto> ''0'', ''create_txg'' \<mapsto> ''4'']\<rparr> []"

text \<open>
  \<open>testutil.MockRunner\<close> with one command added by \<open>AddCommand\<close>: it answers the command
  line that equals the added one or contains it, and fails on any other.
\<close>

definition MockRunner :: "string \<Rightarrow> string \<Rightarrow> string \<Rightarrow> string option \<Rightarrow> Runner" where
  "MockRunner c stdout stderr err name args =
     (let cmdStr = name @ '' '' @ Join args '' '' in
      if cmdStr = c \<or> sublist c cmdStr then (stdout, stderr, err)
      else ([], [], Some (''mock command not found: '' @ cmdStr)))"

text \<open>The client of \<open>TestZDB_GetPool\<close> and \<open>TestZDB_Caching\<close>: zdb behind a mock runner
  that answers \<open>zdb -C poolName\<close> with the given output, and a cache TTL.\<close>

definition testZDB :: "string \<Rightarrow> string \<Rightarrow> duration \<Rightarrow> zdb" where
  "testZDB poolName mockOutput ttl =
     \<lparr>cmd = \<lparr>Bin = ''zdb'', Sudo = False,
             Runner = MockRunner (''zdb -C '' @ poolName) mockOutput [] None\<rparr>,
      cacheTTL = ttl\<rparr>"


text \<open>The options of a client with only the cache TTL set.\<close>

definition testOptions :: "32 word \<Rightarrow> Options" where
  "testOptions ttlSeconds =
     \<lparr>Options.Sudo = False,
      Options.Runner = MockRunner ''zdb -C tank'' ZDBOutput [] None,
      ZFSBin = [], ZpoolBin = [], ZDBBin = [], ZDBCacheTTLSeconds = ttlSeconds\<rparr>"

text \<open>A cache with one entry for the key \<open>tank\<close>, expiring at time 5; the pool it holds.\<close>

definition cachedPool :: ZDBPool where
  "cachedPool = \<lparr>Name = ''tank'', GUID = [], Version = ''28'', Children = []\<rparr>"

definition oneEntryCache :: "string \<rightharpoonup> zdbCacheEntry" where
  "oneEntryCache = [''tank'' \<mapsto> \<lparr>pool = cachedPool, guid = [], expiry = 5\<rparr>]"

text \<open>An output with a \<open>guid\<close> that is no number, under an open node.\<close>

definition badGuidLines :: "string list" where
  "badGuidLines = [[tab] @ ''type: root'', [tab, tab] @ ''guid: not-a-number'']"

text \<open>Three nodes, each nested in the one before; the pool and the stack after them.\<close>

definition nestedLines :: "string list" where
  "nestedLines = [''type: a'', [tab] @ ''type: b'', [tab, tab] @ ''type: c'']"

definition nestedPool :: ZDBPool where
  "nestedPool =
     \<lparr>Name = ''tank'', GUID = [], Version = [],
      Children = [appendChild (appendChild (newChild ''c'') (newChild ''b'')) (newChild ''a'')]\<rparr>"

definition nestedStack :: "childFrame list" where
  "nestedStack =
     [\<lparr>child = [0], indent = 0\<rparr>, \<lparr>child = [0, 0], indent = 1\<rparr>,
      \<lparr>child = [0, 0, 0], indent = 2\<rparr>]"

section \<open>Lemmas\<close>

subsection \<open>Trimming and scanning\<close>

lemma TrimLeftSpace_Nil: "TrimLeftSpace [] = []"
  by (simp add: TrimLeftSpace.simps spaceRuneLen_def whiteSpaceRunes_def)

lemma prefix_hd: "prefix p (c # s) \<Longrightarrow> p \<noteq> [] \<Longrightarrow> hd p = c"
  by (cases p) auto

lemma TrimLeftSpace_plain:
  assumes "c \<notin> set [tab, newline, CHR 0x0B, CHR 0x0C, CHR 0x0D, CHR 0x20,
              CHR 0xC2, CHR 0xE1, CHR 0xE2, CHR 0xE3]"
  shows "TrimLeftSpace (c # s) = c # s"
proof -
  have "\<not> prefix p (c # s)" if "p \<in> set whiteSpaceRunes" for p
  proof
    assume "prefix p (c # s)"
    moreover from that have "p \<noteq> []" by (auto simp: whiteSpaceRunes_def)
    ultimately have "hd p = c" by (rule prefix_hd)
    with that assms show False by (auto simp: whiteSpaceRunes_def)
  qed
  then have "find (\<lambda>p. prefix p (c # s)) whiteSpaceRunes = None"
    by (simp add: find_None_iff)
  then show ?thesis
    by (subst TrimLeftSpace.simps) (simp add: spaceRuneLen_def)
qed

lemma TrimLeftSpace_space:
  assumes "c \<in> set [tab, newline, CHR 0x0B, CHR 0x0C, CHR 0x0D, CHR 0x20]"
  shows "TrimLeftSpace (c # s) = TrimLeftSpace s"
proof -
  from assms have "c = tab \<or> c = newline \<or> c = CHR 0x0B \<or> c = CHR 0x0C \<or> c = CHR 0x0D \<or> c = CHR 0x20"
    by simp
  then have "spaceRuneLen (c # s) = 1"
    by (elim disjE) (simp_all add: spaceRuneLen_def whiteSpaceRunes_def)
  then show ?thesis
    by (subst TrimLeftSpace.simps) simp
qed

lemma TrimRightSpace_Nil: "TrimRightSpace [] = []"
  by (simp add: TrimRightSpace.simps lastSpaceRuneLen_def whiteSpaceRunes_def)

lemma suffix_last: "suffix p s \<Longrightarrow> p \<noteq> [] \<Longrightarrow> last s = last p"
  by (auto simp: suffix_def)

lemma TrimRightSpace_plain:
  assumes "s \<noteq> []"
    and "last s \<notin> set [tab, newline, CHR 0x0B, CHR 0x0C, CHR 0x0D, CHR 0x20,
              CHR 0x85, CHR 0xA0, CHR 0x80, CHR 0x81, CHR 0x82, CHR 0x83, CHR 0x84, CHR 0x86,
              CHR 0x87, CHR 0x88, CHR 0x89, CHR 0x8A, CHR 0xA8, CHR 0xA9, CHR 0xAF, CHR 0x9F]"
  shows "TrimRightSpace s = s"
proof -
  have "\<not> suffix p s" if "p \<in> set whiteSpaceRunes" for p
  proof
    assume "suffix p s"
    moreover from that have "p \<noteq> []" by (auto simp: whiteSpaceRunes_def)
    ultimately have "last s = last p" by (rule suffix_last)
    with that assms(2) show False by (auto simp: whiteSpaceRunes_def)
  qed
  then have "find (\<lambda>p. suffix p s) whiteSpaceRunes = None"
    by (simp add: find_None_iff)
  then show ?thesis
    by (subst TrimRightSpace.simps) (simp add: lastSpaceRuneLen_def)
qed

lemma TrimRightSpace_space:
  assumes "c \<in> set [tab, newline, CHR 0x0B, CHR 0x0C, CHR 0x0D, CHR 0x20]"
  shows "TrimRightSpace (s @ [c]) = TrimRightSpace s"
proof -
  from assms have "c = tab \<or> c = newline \<or> c = CHR 0x0B \<or> c = CHR 0x0C \<or> c = CHR 0x0D \<or> c = CHR 0x20"
    by simp
  then have "lastSpaceRuneLen (s @ [c]) = 1"
    by (elim disjE) (simp_all add: lastSpaceRuneLen_def whiteSpaceRunes_def)
  then show ?thesis
    by (subst TrimRightSpace.simps) simp
qed

lemmas trim_eval = TrimSpace_def TrimLeftSpace_Nil TrimLeftSpace_plain TrimLeftSpace_space
  TrimRightSpace_Nil TrimRightSpace_plain

lemmas scan_eval = Sscan_int_def Sscan_uint64_def scanBasePrefix_def scanNumber_def ParseInt_def
  ParseUint_def digitVal_def lower_def decimalDigits_def octalDigits_def TrimLeftSpace_plain TrimLeftSpace_Nil

lemma TrimLeftSpace_tabs: "TrimLeftSpace (replicate k tab @ s) = TrimLeftSpace s"
  by (induction k) (simp_all add: TrimLeftSpace_space)

lemma TrimLeftSpace_dropWhile_tab: "TrimLeftSpace (dropWhile (\<lambda>r. r = tab) s) = TrimLeftSpace s"
  by (induction s) (simp_all add: TrimLeftSpace_space)

lemma TrimRight_Nil_iff: "TrimRight s cutset = [] \<longleftrightarrow> set s \<subseteq> set cutset"
  by (auto simp: TrimRight_def dropWhile_eq_Nil_conv)

lemma Split_not_Nil: "Split s sep \<noteq> []"
  by (cases s) (auto split: list.splits)

lemma TrimRight_id: "s \<noteq> [] \<Longrightarrow> last s \<notin> set cutset \<Longrightarrow> TrimRight s cutset = s"
  by (cases s rule: rev_cases) (simp_all add: TrimRight_def)

lemma Split_no_sep: "sep \<notin> set s \<Longrightarrow> Split s sep = [s]"
  by (induction s) auto

lemma Split_append: "sep \<notin> set a \<Longrightarrow> Split (a @ sep # b) sep = a # Split b sep"
  by (induction a) auto

lemma Split_Join:
  "ls \<noteq> [] \<Longrightarrow> \<forall>l \<in> set ls. sep \<notin> set l \<Longrightarrow> Split (Join ls [sep]) sep = ls"
  by (induction ls "[sep]" rule: Join.induct) (simp_all add: Split_no_sep Split_append)

subsection \<open>The tree and the stack\<close>

lemma getChild_updChild_same:
  "getChild cs r = Some c \<Longrightarrow> getChild (updChild f cs r) r = Some (f c)"
  by (induction r arbitrary: cs) (auto split: if_splits)

lemma getChild_prefix:
  "getChild cs r = Some c \<Longrightarrow> getChild (cs @ zs) r = Some c"
  by (cases r) (auto simp: nth_append split: if_splits)

text \<open>Updating a node so that it keeps its children keeps every pointer valid.\<close>

lemma getChild_updChild_valid:
  assumes "getChild cs r' \<noteq> None"
    and "\<And>c. getChild cs r = Some c \<Longrightarrow>
           \<exists>zs. ZDBPoolChild.Children (f c) = ZDBPoolChild.Children c @ zs"
  shows "getChild (updChild f cs r) r' \<noteq> None"
  using assms
proof (induction r' arbitrary: cs r)
  case Nil
  then show ?case by simp
next
  case (Cons i' t')
  show ?case
  proof (cases r)
    case Nil
    with Cons.prems show ?thesis by simp
  next
    case (Cons i t)
    note r = Cons
    from Cons.prems(1) have i': "i' < length cs" by (auto split: if_splits)
    show ?thesis
    proof (cases "i < length cs \<and> i = i' \<and> t' \<noteq> []")
      case False
      with Cons.prems(1) i' r show ?thesis
        by (auto simp: nth_list_update split: if_splits)
    next
      case True
      then have ii: "i = i'" and t': "t' \<noteq> []" by auto
      from Cons.prems(1) i' t' have old: "getChild (ZDBPoolChild.Children (cs ! i')) t' \<noteq> None"
        by auto
      show ?thesis
      proof (cases "t = []")
        case True
        with i' ii have "getChild cs r = Some (cs ! i')" by (simp add: r)
        from Cons.prems(2)[OF this] obtain zs where
          "ZDBPoolChild.Children (f (cs ! i')) = ZDBPoolChild.Children (cs ! i') @ zs" by blast
        with old True i' ii t' r show ?thesis
          by (auto dest: getChild_prefix)
      next
        case False
        have "getChild (updChild f (ZDBPoolChild.Children (cs ! i')) t) t' \<noteq> None"
        proof (rule Cons.IH[OF old])
          fix c assume "getChild (ZDBPoolChild.Children (cs ! i')) t = Some c"
          with False i' ii have "getChild cs r = Some c" by (simp add: r)
          then show "\<exists>zs. ZDBPoolChild.Children (f c) = ZDBPoolChild.Children c @ zs"
            by (rule Cons.prems(2))
        qed
        with False i' ii t' r show ?thesis by simp
      qed
    qed
  qed
qed

lemma getChild_snoc:
  "getChild cs r = Some c \<Longrightarrow> k < length (ZDBPoolChild.Children c) \<Longrightarrow>
   getChild cs (r @ [k]) = Some (ZDBPoolChild.Children c ! k)"
  by (induction r arbitrary: cs) (auto split: if_splits)

lemma popFrames_Nil [simp]: "popFrames d [] = []"
  by (simp add: popFrames.simps)

lemma popFrames_snoc [simp]:
  "popFrames d (xs @ [x]) = (if d \<le> indent x then popFrames d xs else xs @ [x])"
  by (subst popFrames.simps) simp

text \<open>On a stack whose depths grow strictly, the loop that pops while the top is at
  least as deep as the line removes exactly the frames that are at least as deep.\<close>

lemma popFrames_filter:
  "sorted_wrt (<) (map indent stack) \<Longrightarrow> popFrames d stack = filter (\<lambda>f. indent f < d) stack"
proof (induction stack rule: rev_induct)
  case Nil
  then show ?case by simp
next
  case (snoc x xs)
  then have xs: "sorted_wrt (<) (map indent xs)" and lt: "\<forall>y \<in> set xs. indent y < indent x"
    by (auto simp: sorted_wrt_append)
  show ?case
  proof (cases "d \<le> indent x")
    case True
    with snoc.IH[OF xs] show ?thesis by simp
  next
    case False
    with lt have "\<forall>y \<in> set xs. indent y < d" by auto
    then have "filter (\<lambda>f. indent f < d) xs = xs" by (simp add: filter_id_conv)
    with False show ?thesis by simp
  qed
qed

lemma parseProp_Children:
  "ZDBPoolChild.Children (fst (parseProp c p v)) = ZDBPoolChild.Children c"
  by (simp add: parseProp_def Let_def split: sum.splits)

lemma Children_appendChild:
  "ZDBPoolChild.Children (appendChild x c) = ZDBPoolChild.Children c @ [x]"
  by (simp add: appendChild_def)

lemma Children_newChild: "ZDBPoolChild.Children (newChild v) = []"
  by (simp add: newChild_def)

lemma parseProp_Properties:
  "Properties (childFields (fst (parseProp c pr v))) pr = Some v"
  by (simp add: parseProp_def Let_def split: sum.splits)

text \<open>The error of \<open>parseProp\<close> is the error of the typed conversion, under the name of
  the field.\<close>

lemma snd_parseProp:
  "snd (parseProp c pr v) = map_option (ParsePropError pr) (conversionError pr v)"
  by (simp add: parseProp_def conversionError_def Let_def split: sum.splits)

subsection \<open>Every state the loop reaches is well formed\<close>

text \<open>What a \<open>type\<close> line does to a well-formed state.\<close>

lemma processFields_type:
  fixes d :: nat
  assumes wf: "wfState (p, stack)"
  defines "opn \<equiv> filter (\<lambda>f. indent f < d) stack"
  shows "\<exists>p' r.
      processFields (p, stack) (d, ''type'', val) = Inr (p', opn @ [\<lparr>child = r, indent = d\<rparr>]) \<and>
      getChild (Children p') r = Some (newChild val) \<and>
      ZDBPool.GUID p' = ZDBPool.GUID p \<and> Name p' = Name p \<and> Version p' = Version p \<and>
      (\<forall>f \<in> set opn. getChild (Children p') (child f) \<noteq> None) \<and>
      (if opn = [] then Children p' = Children p @ [newChild val] \<and> r = [length (Children p)]
       else \<exists>parent. getChild (Children p) (child (last opn)) = Some parent \<and>
              Children p' = updChild (appendChild (newChild val)) (Children p) (child (last opn)) \<and>
              getChild (Children p') (child (last opn)) = Some (appendChild (newChild val) parent) \<and>
              r = child (last opn) @ [length (ZDBPoolChild.Children parent)])"
proof -
  from wf have srt: "sorted_wrt (<) (map indent stack)"
    and val: "\<forall>f \<in> set stack. getChild (Children p) (child f) \<noteq> None"
    by (auto simp: wfState_def list_all_iff)
  have pop: "popFrames d stack = opn"
    unfolding opn_def by (rule popFrames_filter[OF srt])
  have sub: "set opn \<subseteq> set stack" by (auto simp: opn_def)
  show ?thesis
  proof (cases "opn = []")
    case True
    then show ?thesis
      by (simp add: processFields_def pop Let_def nth_append)
  next
    case False
    then have "last opn \<in> set stack" using sub by auto
    with val obtain parent where parent: "getChild (Children p) (child (last opn)) = Some parent"
      by auto
    let ?cs = "updChild (appendChild (newChild val)) (Children p) (child (last opn))"
    have new: "getChild ?cs (child (last opn)) = Some (appendChild (newChild val) parent)"
      by (rule getChild_updChild_same[OF parent])
    have num: "numChildren ?cs (child (last opn)) - 1 = length (ZDBPoolChild.Children parent)"
      by (simp add: numChildren_def new Children_appendChild)
    have nc: "getChild ?cs (child (last opn) @ [length (ZDBPoolChild.Children parent)]) =
        Some (newChild val)"
      using getChild_snoc[OF new, of "length (ZDBPoolChild.Children parent)"]
      by (simp add: Children_appendChild)
    have keep: "\<forall>f \<in> set opn. getChild ?cs (child f) \<noteq> None"
    proof
      fix f assume "f \<in> set opn"
      with sub val have "getChild (Children p) (child f) \<noteq> None" by auto
      then show "getChild ?cs (child f) \<noteq> None"
        by (rule getChild_updChild_valid) (simp add: Children_appendChild)
    qed
    from False parent new num nc keep show ?thesis
      by (simp add: processFields_def pop Let_def)
  qed
qed

text \<open>What any other line does to a well-formed state with an open node.\<close>

lemma processFields_other:
  assumes wf: "wfState (p, stack)" and ne: "stack \<noteq> []" and nt: "pr \<noteq> ''type''"
  shows "\<exists>c. getChild (Children p) (child (last stack)) = Some c \<and>
      processFields (p, stack) (d, pr, val) =
        (case snd (parseProp c pr val) of
           Some err \<Rightarrow> Inl err
         | None \<Rightarrow> Inr (p\<lparr>Children := updChild (\<lambda>_. fst (parseProp c pr val)) (Children p)
                                          (child (last stack))\<rparr>, stack))"
proof -
  from wf ne have "getChild (Children p) (child (last stack)) \<noteq> None"
    by (auto simp: wfState_def list_all_iff)
  then obtain c where c: "getChild (Children p) (child (last stack)) = Some c" by auto
  obtain c' e where pp: "parseProp c pr val = (c', e)" by (cases "parseProp c pr val")
  with c ne nt show ?thesis
    by (cases e) (simp_all add: processFields_def Let_def)
qed

lemma processFields_wf:
  assumes "wfState st" and "processFields st l = Inr st'"
  shows "wfState st'"
proof -
  obtain p stack where st: "st = (p, stack)" by (cases st)
  obtain d pr val where l: "l = (d, pr, val)" by (cases l)
  from assms(1) st have wf: "wfState (p, stack)" by simp
  then have srt: "sorted_wrt (<) (map indent stack)"
    and val: "\<forall>f \<in> set stack. getChild (Children p) (child f) \<noteq> None"
    by (auto simp: wfState_def list_all_iff)
  show ?thesis
  proof (cases "pr = ''type''")
    case True
    from processFields_type[OF wf, of d val] assms(2) st l True
    obtain p' r where
      st': "st' = (p', filter (\<lambda>f. indent f < d) stack @ [\<lparr>child = r, indent = d\<rparr>])"
      and r: "getChild (Children p') r = Some (newChild val)"
      and keep: "\<forall>f \<in> set (filter (\<lambda>f. indent f < d) stack).
                   getChild (Children p') (child f) \<noteq> None"
      by auto
    from srt have "sorted_wrt (<) (map indent (filter (\<lambda>f. indent f < d) stack))"
      by (simp add: sorted_wrt_map sorted_wrt_filter)
    with r keep show ?thesis
      by (auto simp: st' wfState_def list_all_iff sorted_wrt_append)
  next
    case nt: False
    show ?thesis
    proof (cases "stack = []")
      case True
      with assms(2) st l nt wf show ?thesis
        by (auto simp: processFields_def wfState_def parseLine_def split: if_splits)
    next
      case False
      from processFields_other[OF wf False nt, of d val] obtain c where
        c: "getChild (Children p) (child (last stack)) = Some c"
        and eq: "processFields (p, stack) (d, pr, val) =
          (case snd (parseProp c pr val) of
             Some err \<Rightarrow> Inl err
           | None \<Rightarrow> Inr (p\<lparr>Children := updChild (\<lambda>_. fst (parseProp c pr val)) (Children p)
                                          (child (last stack))\<rparr>, stack))"
        by blast
      from eq assms(2) st l have
        st': "st' = (p\<lparr>Children := updChild (\<lambda>_. fst (parseProp c pr val)) (Children p)
                                          (child (last stack))\<rparr>, stack)"
        by (auto split: option.splits)
      have "\<forall>f \<in> set stack. getChild (updChild (\<lambda>_. fst (parseProp c pr val)) (Children p)
                                          (child (last stack))) (child f) \<noteq> None"
      proof
        fix f assume "f \<in> set stack"
        with val have "getChild (Children p) (child f) \<noteq> None" by auto
        then show "getChild (updChild (\<lambda>_. fst (parseProp c pr val)) (Children p)
                                          (child (last stack))) (child f) \<noteq> None"
          by (rule getChild_updChild_valid) (simp add: c parseProp_Children)
      qed
      with srt show ?thesis by (simp add: st' wfState_def list_all_iff)
    qed
  qed
qed

lemma processLine_wf: "wfState st \<Longrightarrow> processLine st rawLine = Inr st' \<Longrightarrow> wfState st'"
  by (auto simp: processLine_def split: option.splits dest: processFields_wf)

lemma parseLines_wf: "wfState st \<Longrightarrow> parseLines st lines = Inr st' \<Longrightarrow> wfState st'"
proof (induction lines arbitrary: st)
  case Nil
  then show ?case by simp
next
  case (Cons l ls)
  then show ?case
    by (auto split: sum.splits dest: processLine_wf)
qed

lemma wfState_initState: "wfState (initState name g)"
  by (simp add: wfState_def initState_def)

lemma parseLines_append:
  "parseLines st (xs @ ys) =
     (case parseLines st xs of Inl err \<Rightarrow> Inl err | Inr st' \<Rightarrow> parseLines st' ys)"
  by (induction xs arbitrary: st) (auto split: sum.splits)

subsection \<open>The errors of the loop\<close>

text \<open>The loop fails with the error of \<open>parseProp\<close> and with no other.\<close>

lemma parseProp_error:
  "parseProp c pr v = (c', Some err) \<Longrightarrow> \<exists>e. err = ParsePropError pr e"
  using snd_parseProp[of c pr v] by (cases "conversionError pr v") auto

lemma processFields_error:
  assumes "processFields st l = Inl err"
  shows "\<exists>field e. err = ParsePropError field e"
proof -
  obtain p stack d pr v where st: "st = (p, stack)" and l: "l = (d, pr, v)"
    by (cases st, cases l) auto
  from assms obtain c c' where "parseProp c pr v = (c', Some err)"
    unfolding st l processFields_def Let_def
    by (simp split: if_splits option.splits prod.splits)
  then show ?thesis
    by (blast dest: parseProp_error)
qed

lemma parseLines_error:
  "parseLines st ls = Inl err \<Longrightarrow> \<exists>field e. err = ParsePropError field e"
proof (induction ls arbitrary: st)
  case Nil
  then show ?case by simp
next
  case (Cons l ls)
  show ?case
  proof (cases "processLine st l")
    case (Inl e)
    with Cons.prems have "processLine st l = Inl err" by simp
    then obtain fs where "processFields st fs = Inl err"
      by (auto simp: processLine_def split: option.splits)
    then show ?thesis by (rule processFields_error)
  next
    case (Inr st')
    with Cons.prems have "parseLines st' ls = Inl err" by simp
    then show ?thesis by (rule Cons.IH)
  qed
qed

subsection \<open>Text of white space only\<close>

lemma whiteSpaceRunes_not_Nil: "p \<in> set whiteSpaceRunes \<Longrightarrow> p \<noteq> []"
  by (auto simp: whiteSpaceRunes_def)

lemma whiteSpaceRunes_newline:
  "p \<in> set whiteSpaceRunes \<Longrightarrow> p = [newline] \<or> newline \<notin> set p"
  by (auto simp: whiteSpaceRunes_def)

lemma spaceRuneLen_find:
  assumes "spaceRuneLen s \<noteq> 0"
  obtains p t where "p \<in> set whiteSpaceRunes" and "s = p @ t" and "spaceRuneLen s = length p"
proof (cases "find (\<lambda>p. prefix p s) whiteSpaceRunes")
  case None
  with assms show ?thesis by (simp add: spaceRuneLen_def)
next
  case (Some p)
  then have "p \<in> set whiteSpaceRunes" and "prefix p s"
    by (auto simp: find_Some_iff)
  moreover from Some have "spaceRuneLen s = length p"
    by (simp add: spaceRuneLen_def)
  ultimately show ?thesis
    using that by (auto simp: prefix_def)
qed

lemma lastSpaceRuneLen_find:
  assumes "lastSpaceRuneLen s \<noteq> 0"
  obtains p t where "p \<in> set whiteSpaceRunes" and "s = t @ p" and "lastSpaceRuneLen s = length p"
proof (cases "find (\<lambda>p. suffix p s) whiteSpaceRunes")
  case None
  with assms show ?thesis by (simp add: lastSpaceRuneLen_def)
next
  case (Some p)
  then have "p \<in> set whiteSpaceRunes" and "suffix p s"
    by (auto simp: find_Some_iff)
  moreover from Some have "lastSpaceRuneLen s = length p"
    by (simp add: lastSpaceRuneLen_def)
  ultimately show ?thesis
    using that by (auto simp: suffix_def)
qed

lemma spaceRuneLen_prefix:
  assumes "p \<in> set whiteSpaceRunes" and "prefix p s"
  shows "spaceRuneLen s \<noteq> 0"
proof (cases "find (\<lambda>p. prefix p s) whiteSpaceRunes")
  case None
  with assms show ?thesis by (simp add: find_None_iff)
next
  case (Some q)
  then have "q \<in> set whiteSpaceRunes"
    by (auto simp: find_Some_iff)
  with Some show ?thesis
    by (simp add: spaceRuneLen_def whiteSpaceRunes_not_Nil)
qed

lemma whiteSpaceRunes_prefix_free:
  "\<forall>p\<in>set whiteSpaceRunes. \<forall>q\<in>set whiteSpaceRunes. prefix q p \<longrightarrow> length q = length p"
  by (simp add: whiteSpaceRunes_def)

lemma spaceRuneLen_rune:
  assumes "p \<in> set whiteSpaceRunes"
  shows "spaceRuneLen (p @ s) = length p"
proof -
  from assms have "spaceRuneLen (p @ s) \<noteq> 0"
    by (rule spaceRuneLen_prefix) simp
  then obtain q t where q: "q \<in> set whiteSpaceRunes" and eq: "p @ s = q @ t"
    and len: "spaceRuneLen (p @ s) = length q"
    by (rule spaceRuneLen_find)
  from eq have "prefix q p \<or> prefix p q"
    by (metis prefixI prefix_same_cases)
  with assms q have "length q = length p"
    using whiteSpaceRunes_prefix_free by metis
  with len show ?thesis by simp
qed

lemma TrimLeftSpace_rune:
  assumes "p \<in> set whiteSpaceRunes"
  shows "TrimLeftSpace (p @ s) = TrimLeftSpace s"
proof -
  from assms have "spaceRuneLen (p @ s) = length p" by (rule spaceRuneLen_rune)
  moreover from assms have "p \<noteq> []" by (rule whiteSpaceRunes_not_Nil)
  ultimately show ?thesis
    by (subst TrimLeftSpace.simps) simp
qed

lemma spaceRuneLen_TrimLeftSpace: "spaceRuneLen (TrimLeftSpace s) = 0"
proof (induction s rule: TrimLeftSpace.induct)
  case (1 s)
  then show ?case
    by (subst TrimLeftSpace.simps) simp
qed

lemma TrimRightSpace_Nil_starts:
  "TrimRightSpace s = [] \<Longrightarrow> s = [] \<or> spaceRuneLen s \<noteq> 0"
proof (induction s rule: TrimRightSpace.induct)
  case (1 s)
  show ?case
  proof (cases "lastSpaceRuneLen s = 0")
    case True
    with "1.prems" show ?thesis
      by (subst (asm) TrimRightSpace.simps) simp
  next
    case False
    then obtain p t where p: "p \<in> set whiteSpaceRunes" and s: "s = t @ p"
      and len: "lastSpaceRuneLen s = length p"
      by (rule lastSpaceRuneLen_find)
    from s len have "take (length s - lastSpaceRuneLen s) s = t" by simp
    with False "1.prems" have "TrimRightSpace t = []"
      by (subst (asm) TrimRightSpace.simps) simp
    with "1.IH" False \<open>take (length s - lastSpaceRuneLen s) s = t\<close>
    have "t = [] \<or> spaceRuneLen t \<noteq> 0" by simp
    then show ?thesis
    proof
      assume "t = []"
      with s p have "spaceRuneLen s \<noteq> 0"
        by (intro spaceRuneLen_prefix[of p]) simp_all
      then show ?thesis ..
    next
      assume "spaceRuneLen t \<noteq> 0"
      then obtain q u where "q \<in> set whiteSpaceRunes" and "t = q @ u"
        by (rule spaceRuneLen_find)
      with s have "spaceRuneLen s \<noteq> 0"
        by (intro spaceRuneLen_prefix[of q]) simp_all
      then show ?thesis ..
    qed
  qed
qed

lemma TrimSpace_Nil_iff: "TrimSpace s = [] \<longleftrightarrow> TrimLeftSpace s = []"
proof
  assume "TrimSpace s = []"
  then have "TrimLeftSpace s = [] \<or> spaceRuneLen (TrimLeftSpace s) \<noteq> 0"
    unfolding TrimSpace_def by (rule TrimRightSpace_Nil_starts)
  then show "TrimLeftSpace s = []"
    by (simp add: spaceRuneLen_TrimLeftSpace)
next
  assume "TrimLeftSpace s = []"
  then show "TrimSpace s = []"
    by (simp add: TrimSpace_def TrimRightSpace_Nil)
qed

lemma Split_prepend:
  "sep \<notin> set p \<Longrightarrow> Split (p @ t) sep = (p @ hd (Split t sep)) # tl (Split t sep)"
proof (induction p)
  case Nil
  then show ?case by (simp add: Split_not_Nil)
next
  case (Cons c p)
  then show ?case by auto
qed

lemma Split_snoc_sep: "Split (s @ [sep]) sep = Split s sep @ [[]]"
  by (induction s) (auto simp: Split_not_Nil split: list.splits)

lemma set_Split_TrimRight: "set (Split (TrimRight s [sep]) sep) \<subseteq> set (Split s sep)"
proof (induction s rule: rev_induct)
  case Nil
  then show ?case by (simp add: TrimRight_def)
next
  case (snoc x xs)
  show ?case
  proof (cases "x = sep")
    case True
    then have "TrimRight (xs @ [x]) [sep] = TrimRight xs [sep]"
      by (simp add: TrimRight_def)
    with snoc True show ?thesis
      by (auto simp: Split_snoc_sep)
  next
    case False
    then have "TrimRight (xs @ [x]) [sep] = xs @ [x]"
      by (simp add: TrimRight_def)
    then show ?thesis by simp
  qed
qed

text \<open>The lines of a text of white space only are blank.\<close>

lemma Split_blank:
  "TrimLeftSpace s = [] \<Longrightarrow> l \<in> set (Split s newline) \<Longrightarrow> TrimLeftSpace l = []"
proof (induction s arbitrary: l rule: TrimLeftSpace.induct)
  case (1 s)
  show ?case
  proof (cases "spaceRuneLen s = 0")
    case True
    with "1.prems"(1) have "s = []"
      by (subst (asm) TrimLeftSpace.simps) simp
    with "1.prems"(2) show ?thesis
      by (simp add: TrimLeftSpace_Nil)
  next
    case False
    then obtain p t where p: "p \<in> set whiteSpaceRunes" and s: "s = p @ t"
      and len: "spaceRuneLen s = length p"
      by (rule spaceRuneLen_find)
    from s len have d: "drop (spaceRuneLen s) s = t" by simp
    from "1.prems"(1) p s have t: "TrimLeftSpace t = []"
      by (simp add: TrimLeftSpace_rune)
    have IH: "TrimLeftSpace k = []" if "k \<in> set (Split t newline)" for k
      using "1.IH"[OF False] d t that by simp
    from p consider "p = [newline]" | "newline \<notin> set p"
      using whiteSpaceRunes_newline by blast
    then show ?thesis
    proof cases
      case 1
      with s "1.prems"(2) have "l = [] \<or> l \<in> set (Split t newline)" by auto
      then show ?thesis
        by (auto simp: TrimLeftSpace_Nil IH)
    next
      case 2
      then have "Split s newline = (p @ hd (Split t newline)) # tl (Split t newline)"
        unfolding s by (rule Split_prepend)
      with "1.prems"(2) have "l = p @ hd (Split t newline) \<or> l \<in> set (tl (Split t newline))"
        by simp
      then show ?thesis
      proof
        assume "l = p @ hd (Split t newline)"
        moreover have "hd (Split t newline) \<in> set (Split t newline)"
          by (simp add: Split_not_Nil)
        ultimately show ?thesis
          using p by (simp add: TrimLeftSpace_rune IH)
      next
        assume "l \<in> set (tl (Split t newline))"
        then have "l \<in> set (Split t newline)"
          by (rule list.set_sel(2)[rotated]) (simp add: Split_not_Nil)
        then show ?thesis by (rule IH)
      qed
    qed
  qed
qed

lemma lineFields_blank_output:
  assumes "TrimSpace out = []" and "l \<in> set (Split (TrimRight out [newline]) newline)"
  shows "lineFields l = None"
proof -
  from assms(2) have l: "l \<in> set (Split out newline)"
    using set_Split_TrimRight[of out newline] by (rule rev_subsetD)
  from assms(1) have "TrimLeftSpace out = []"
    by (simp only: TrimSpace_Nil_iff)
  then have "TrimLeftSpace l = []"
    using l by (rule Split_blank)
  then have "TrimSpace l = []"
    by (simp only: TrimSpace_Nil_iff)
  then show ?thesis
    by (simp only: lineFields_def simp_thms if_True)
qed

lemma parseLines_blank:
  "\<forall>l \<in> set ls. lineFields l = None \<Longrightarrow> parseLines st ls = Inr st"
  by (induction ls) (simp_all add: processLine_def)

subsection \<open>The pool's own fields\<close>

lemma processFields_GUID:
  "processFields (p, stack) l = Inr (p', stack') \<Longrightarrow> ZDBPool.GUID p' = ZDBPool.GUID p"
  by (auto simp: processFields_def Let_def parseLine_def
           split: prod.splits if_splits option.splits)

lemma processLine_GUID:
  "processLine (p, stack) rawLine = Inr (p', stack') \<Longrightarrow> ZDBPool.GUID p' = ZDBPool.GUID p"
  by (auto simp: processLine_def split: option.splits dest: processFields_GUID)

lemma parseLines_GUID:
  "parseLines (p, stack) lines = Inr (p', stack') \<Longrightarrow> ZDBPool.GUID p' = ZDBPool.GUID p"
proof (induction lines arbitrary: p stack)
  case Nil
  then show ?case by simp
next
  case (Cons l ls)
  then show ?case
    by (auto split: sum.splits dest: processLine_GUID)
qed

subsection \<open>Running the fixtures\<close>

lemma Split_ZDBOutput: "Split ZDBOutput newline = ZDBOutputLines"
  unfolding ZDBOutput_def by (rule Split_Join) (simp_all add: ZDBOutputLines_def)

lemma TrimRight_ZDBOutput: "TrimRight ZDBOutput [newline] = ZDBOutput"
  by (rule TrimRight_id) (simp_all add: ZDBOutput_def ZDBOutputLines_def)

lemma ZDBOutput_not_Nil: "ZDBOutput \<noteq> []"
  by (simp add: ZDBOutput_def ZDBOutputLines_def)

lemma zdbOutput_testZDB:
  "zdbOutput (testZDB name out ttl) (zdbArgs @ [name]) =
     (if TrimRight out [newline] = [] then Inr [] else Inr (Split (TrimRight out [newline]) newline))"
  by (simp add: zdbOutput_def RunBytes_def invocation_def testZDB_def MockRunner_def zdbArgs_def
      Let_def)

lemma invocation_testZDB:
  "invocation (cmd (testZDB name out ttl)) (zdbArgs @ [name]) = (''zdb'', [''-C'', name])"
  by (simp add: invocation_def testZDB_def zdbArgs_def)

lemma lineFields_ZDBOutput:
  "map lineFields ZDBOutputLines =
     [Some (0, ''version'', ''5000''), Some (0, ''name'', ''tank''),
      Some (1, ''type'', ''root''), Some (2, ''id'', ''0''),
      Some (2, ''guid'', ''12345678901234567890''),
      Some (2, ''path'', ''/dev/ada0p3''),
      Some (2, ''whole_disk'', ''0''),
      Some (2, ''metaslab_array'', ''71''),
      Some (2, ''metaslab_shift'', ''24''),
      Some (2, ''ashift'', ''9''),
      Some (2, ''asize'', ''10737418240''),
      Some (2, ''is_log'', ''0''),
      Some (2, ''create_txg'', ''4'')]"
  by (simp add: ZDBOutputLines_def lineFields_def TrimLeft_def SplitN2_def trim_eval)

lemma Sscan_ZDBOutput:
  "Sscan_int ''0'' = Inr 0" "Sscan_int ''71'' = Inr 71" "Sscan_int ''24'' = Inr 24"
  "Sscan_int ''9'' = Inr 9"
  "Sscan_uint64 ''12345678901234567890'' = Inr 12345678901234567890"
  "Sscan_uint64 ''10737418240'' = Inr 10737418240" "Sscan_uint64 ''4'' = Inr 4"
  by (simp_all add: scan_eval)

lemma parseLines_ZDBOutput:
  "parseLines (initState name g) ZDBOutputLines =
     Inr (\<lparr>Name = ''tank'', GUID = g, Version = ''5000'', Children = [ZDBOutputRoot]\<rparr>,
          [\<lparr>child = [0], indent = 1\<rparr>])"
  using lineFields_ZDBOutput
  by (simp add: ZDBOutputLines_def initState_def processLine_def processFields_def parseLine_def
      parseProp_def newChild_def ZDBOutputRoot_def Sscan_ZDBOutput)

lemma GetPool_testZDB_ZDBOutput:
  assumes "cacheLookup (0 < ttl) cache (cacheKey name g) nowLookup = None"
  shows "GetPool (testZDB name ZDBOutput ttl) nowLookup nowStore cache name g =
     \<lparr>returned = Inr \<lparr>Name = ''tank'', GUID = g, Version = ''5000'', Children = [ZDBOutputRoot]\<rparr>,
      zdbCache =
        (if 0 < ttl
         then cache(cacheKey name g \<mapsto>
                \<lparr>pool = \<lparr>Name = ''tank'', GUID = g, Version = ''5000'', Children = [ZDBOutputRoot]\<rparr>,
                 guid = g, expiry = nowStore + ttl\<rparr>)
         else cache),
      runs = [(''zdb'', [''-C'', name])]\<rparr>"
proof -
  have "cacheTTL (testZDB name ZDBOutput ttl) = ttl" by (simp add: testZDB_def)
  moreover have "zdbOutput (testZDB name ZDBOutput ttl) (zdbArgs @ [name]) = Inr ZDBOutputLines"
    by (simp add: zdbOutput_testZDB TrimRight_ZDBOutput ZDBOutput_not_Nil Split_ZDBOutput)
  moreover have "ZDBOutputLines \<noteq> []" by (simp add: ZDBOutputLines_def)
  ultimately show ?thesis
    using assms
    by (simp add: GetPool_def Let_def invocation_testZDB parseLines_ZDBOutput)
qed

lemma dom_ZDBOutputRoot:
  "dom (Properties (childFields ZDBOutputRoot)) =
     {''create_txg'', ''is_log'', ''asize'', ''ashift'', ''metaslab_shift'', ''metaslab_array'',
      ''whole_disk'', ''path'', ''guid'', ''id'', ''type''}"
  by (simp add: ZDBOutputRoot_def)

lemma parseLines_nestedLines:
  "parseLines (initState ''tank'' []) nestedLines = Inr (nestedPool, nestedStack)"
proof -
  have lf: "lineFields ''type: a'' = Some (0, ''type'', ''a'')"
    "lineFields ([tab] @ ''type: b'') = Some (1, ''type'', ''b'')"
    "lineFields ([tab, tab] @ ''type: c'') = Some (2, ''type'', ''c'')"
    by (simp_all add: lineFields_def TrimLeft_def SplitN2_def trim_eval)
  show ?thesis
    using lf
    by (simp add: nestedLines_def nestedPool_def nestedStack_def initState_def processLine_def
        processFields_def popFrames.simps numChildren_def appendChild_def Children_newChild Let_def)
qed

subsection \<open>Lines that differ in their depth\<close>

lemma dropWhile_dropWhile_weaker:
  "(\<And>x. P x \<Longrightarrow> Q x) \<Longrightarrow> dropWhile Q (dropWhile P xs) = dropWhile Q xs"
  by (induction xs) auto

lemma takeWhile_tabs: "takeWhile (\<lambda>r. r = tab) s = replicate (length (takeWhile (\<lambda>r. r = tab) s)) tab"
  by (induction s) auto

lemma setIndent_takeWhile:
  "takeWhile (\<lambda>r. r = tab) (setIndent k l) = replicate k tab"
proof -
  have "takeWhile (\<lambda>r. r = tab) (dropWhile (\<lambda>r. r = tab) l) = []"
    by (induction l) auto
  then have "takeWhile (\<lambda>r. r = tab) (replicate k tab @ dropWhile (\<lambda>r. r = tab) l) =
      replicate k tab"
    by (induction k) simp_all
  then show ?thesis
    by (simp add: setIndent_def)
qed

lemma setIndent_TrimSpace: "TrimSpace (setIndent k l) = TrimSpace l"
  by (simp add: TrimSpace_def setIndent_def TrimLeftSpace_tabs TrimLeftSpace_dropWhile_tab)

lemma setIndent_TrimLeft: "TrimLeft (setIndent k l) [tab, CHR '' ''] = TrimLeft l [tab, CHR '' '']"
proof -
  have "dropWhile (\<lambda>c. c \<in> set [tab, CHR '' '']) (replicate k tab @ s) =
      dropWhile (\<lambda>c. c \<in> set [tab, CHR '' '']) s" for s
    by (induction k) auto
  then show ?thesis
    by (simp add: TrimLeft_def setIndent_def dropWhile_dropWhile_weaker)
qed

lemma lineFields_setIndent:
  "lineFields (setIndent k l) = map_option (\<lambda>(d, pr, v). (k, pr, v)) (lineFields l)"
  by (simp add: lineFields_def setIndent_TrimSpace setIndent_TrimLeft setIndent_takeWhile Let_def)

lemma processFields_depth:
  "pr \<noteq> ''type'' \<Longrightarrow> processFields st (d, pr, v) = processFields st (d', pr, v)"
  by (simp add: processFields_def split: prod.splits)

lemma processLine_setIndent:
  "\<not> isTypeLine l \<Longrightarrow> processLine st (setIndent k l) = processLine st l"
  by (auto simp: processLine_def lineFields_setIndent isTypeLine_def
           split: option.splits intro: processFields_depth)

lemma reindented_setIndent:
  assumes "reindented l l'" and "\<not> isTypeLine l"
  shows "l' = setIndent (length (takeWhile (\<lambda>r. r = tab) l')) l"
proof -
  from assms have "dropWhile (\<lambda>r. r = tab) l' = dropWhile (\<lambda>r. r = tab) l"
    by (simp add: reindented_def)
  moreover have "l' = takeWhile (\<lambda>r. r = tab) l' @ dropWhile (\<lambda>r. r = tab) l'" by simp
  ultimately show ?thesis
    using takeWhile_tabs[of l'] by (simp add: setIndent_def)
qed

lemma processLine_reindented: "reindented l l' \<Longrightarrow> processLine st l' = processLine st l"
proof (cases "isTypeLine l")
  case True
  moreover assume "reindented l l'"
  ultimately show ?thesis by (simp add: reindented_def)
next
  case False
  moreover assume "reindented l l'"
  ultimately have "l' = setIndent (length (takeWhile (\<lambda>r. r = tab) l')) l"
    by (rule reindented_setIndent[rotated])
  then obtain k where "l' = setIndent k l" ..
  with False show ?thesis by (simp add: processLine_setIndent)
qed

lemma parseLines_reindented:
  "list_all2 reindented ls ls' \<Longrightarrow> parseLines st ls' = parseLines st ls"
proof (induction ls ls' arbitrary: st rule: list_all2_induct)
  case Nil
  then show ?case by simp
next
  case (Cons l ls l' ls')
  then show ?case
    by (simp add: processLine_reindented split: sum.splits)
qed

subsection \<open>The shape of the tree\<close>

lemma shapeOf_eq:
  "shapeOf c = Shape (Type (childFields c)) (map shapeOf (ZDBPoolChild.Children c))"
  by (cases c) simp

lemma shapeOf_nth:
  "map shapeOf cs1 = map shapeOf cs2 \<Longrightarrow> i < length cs1 \<Longrightarrow> shapeOf (cs1 ! i) = shapeOf (cs2 ! i)"
  by (metis nth_map length_map)

lemma getChild_shape:
  "map shapeOf cs1 = map shapeOf cs2 \<Longrightarrow> getChild cs1 r = Some c1 \<Longrightarrow>
   \<exists>c2. getChild cs2 r = Some c2 \<and> shapeOf c2 = shapeOf c1"
proof (induction r arbitrary: cs1 cs2)
  case Nil
  then show ?case by simp
next
  case (Cons i t)
  from Cons.prems(2) have i: "i < length cs1" by (auto split: if_splits)
  with Cons.prems(1) have i2: "i < length cs2" by (metis length_map)
  from Cons.prems(1) i have sh: "shapeOf (cs1 ! i) = shapeOf (cs2 ! i)" by (rule shapeOf_nth)
  show ?case
  proof (cases "t = []")
    case True
    with Cons.prems(2) i i2 sh show ?thesis by auto
  next
    case False
    from sh have "map shapeOf (ZDBPoolChild.Children (cs1 ! i)) =
        map shapeOf (ZDBPoolChild.Children (cs2 ! i))"
      by (simp add: shapeOf_eq[of "cs1 ! i"] shapeOf_eq[of "cs2 ! i"])
    moreover from Cons.prems(2) i False have "getChild (ZDBPoolChild.Children (cs1 ! i)) t = Some c1"
      by simp
    ultimately have "\<exists>c2. getChild (ZDBPoolChild.Children (cs2 ! i)) t = Some c2 \<and>
        shapeOf c2 = shapeOf c1"
      by (rule Cons.IH)
    with i2 False show ?thesis by simp
  qed
qed

lemma updChild_shape_cong:
  assumes "map shapeOf cs1 = map shapeOf cs2"
    and "\<And>c1 c2. shapeOf c1 = shapeOf c2 \<Longrightarrow> shapeOf (f c1) = shapeOf (f c2)"
  shows "map shapeOf (updChild f cs1 r) = map shapeOf (updChild f cs2 r)"
  using assms(1)
proof (induction r arbitrary: cs1 cs2)
  case Nil
  then show ?case by simp
next
  case (Cons i t)
  from Cons.prems have len: "length cs1 = length cs2" by (metis length_map)
  show ?case
  proof (cases "i < length cs1")
    case False
    with len Cons.prems show ?thesis by simp
  next
    case True
    with Cons.prems have sh: "shapeOf (cs1 ! i) = shapeOf (cs2 ! i)" by (rule shapeOf_nth)
    then have ty: "Type (childFields (cs1 ! i)) = Type (childFields (cs2 ! i))"
      and ch: "map shapeOf (ZDBPoolChild.Children (cs1 ! i)) =
        map shapeOf (ZDBPoolChild.Children (cs2 ! i))"
      by (simp_all add: shapeOf_eq[of "cs1 ! i"] shapeOf_eq[of "cs2 ! i"])
    show ?thesis
    proof (cases "t = []")
      case True
      with \<open>i < length cs1\<close> len Cons.prems assms(2)[OF sh] show ?thesis
        by (simp add: map_update)
    next
      case False
      from Cons.IH[OF ch] ty \<open>i < length cs1\<close> len Cons.prems False show ?thesis
        by (simp add: map_update)
    qed
  qed
qed

lemma updChild_shape_same:
  assumes "\<And>c. getChild cs r = Some c \<Longrightarrow> shapeOf (f c) = shapeOf c"
  shows "map shapeOf (updChild f cs r) = map shapeOf cs"
  using assms
proof (induction r arbitrary: cs)
  case Nil
  then show ?case by simp
next
  case (Cons i t)
  show ?case
  proof (cases "i < length cs")
    case False
    then show ?thesis by simp
  next
    case True
    show ?thesis
    proof (cases "t = []")
      case True
      with \<open>i < length cs\<close> Cons.prems[of "cs ! i"] show ?thesis
        by (simp add: map_update list_update_same_conv)
    next
      case False
      have "map shapeOf (updChild f (ZDBPoolChild.Children (cs ! i)) t) =
          map shapeOf (ZDBPoolChild.Children (cs ! i))"
      proof (rule Cons.IH)
        fix c assume "getChild (ZDBPoolChild.Children (cs ! i)) t = Some c"
        with False \<open>i < length cs\<close> have "getChild cs (i # t) = Some c" by simp
        then show "shapeOf (f c) = shapeOf c" by (rule Cons.prems)
      qed
      with False \<open>i < length cs\<close> show ?thesis
        by (simp add: map_update list_update_same_conv shapeOf_eq[of "cs ! i"])
    qed
  qed
qed

lemma shapeOf_appendChild:
  "shapeOf c1 = shapeOf c2 \<Longrightarrow> shapeOf (appendChild x c1) = shapeOf (appendChild x c2)"
  by (simp add: appendChild_def shapeOf_eq[of c1] shapeOf_eq[of c2])

lemma shapeOf_parseProp:
  "pr \<noteq> ''type'' \<Longrightarrow> shapeOf (fst (parseProp c pr v)) = shapeOf c"
  by (simp add: parseProp_def Let_def shapeOf_eq[of c] split: sum.splits)

text \<open>A line that is no \<open>type\<close> line leaves the stack and the shape as they are.\<close>

lemma processLine_other_shape:
  assumes "wfState (p, stack)" and "\<not> isTypeLine l" and "processLine (p, stack) l = Inr (p', stack')"
  shows "stack' = stack \<and> map shapeOf (Children p') = map shapeOf (Children p)"
proof (cases "lineFields l")
  case None
  with assms(3) show ?thesis by (simp add: processLine_def)
next
  case (Some a)
  obtain d pr v where a: "a = (d, pr, v)" by (cases a)
  with Some assms(2) have nt: "pr \<noteq> ''type''" by (simp add: isTypeLine_def)
  from Some a assms(3) have pf: "processFields (p, stack) (d, pr, v) = Inr (p', stack')"
    by (simp add: processLine_def)
  show ?thesis
  proof (cases "stack = []")
    case True
    with pf nt show ?thesis
      by (auto simp: processFields_def parseLine_def split: if_splits)
  next
    case False
    from processFields_other[OF assms(1) False nt, of d v] pf obtain c where
      c: "getChild (Children p) (child (last stack)) = Some c"
      and st: "stack' = stack"
      and p': "p' = p\<lparr>Children := updChild (\<lambda>_. fst (parseProp c pr v)) (Children p)
                                          (child (last stack))\<rparr>"
      by (auto split: option.splits)
    have "map shapeOf (updChild (\<lambda>_. fst (parseProp c pr v)) (Children p) (child (last stack))) =
        map shapeOf (Children p)"
      by (rule updChild_shape_same) (simp add: c shapeOf_parseProp[OF nt])
    with st p' show ?thesis by simp
  qed
qed

text \<open>Two well-formed states with the same stack and the same shape take a \<open>type\<close> line
  to states with the same stack and the same shape.\<close>

lemma processLine_type_shape:
  assumes wf1: "wfState (q1, s)" and wf2: "wfState (q2, s)"
    and sh: "map shapeOf (Children q1) = map shapeOf (Children q2)"
    and ty: "isTypeLine l"
    and run: "processLine (q1, s) l = Inr (p1, s1)"
  shows "\<exists>p2. processLine (q2, s) l = Inr (p2, s1) \<and>
      map shapeOf (Children p1) = map shapeOf (Children p2)"
proof -
  from ty obtain d v where lf: "lineFields l = Some (d, ''type'', v)"
    by (auto simp: isTypeLine_def split: option.splits)
  let ?opn = "filter (\<lambda>f. indent f < d) s"
  from processFields_type[OF wf1, of d v] run lf obtain r1 where
    s1: "s1 = ?opn @ [\<lparr>child = r1, indent = d\<rparr>]"
    and a1: "if ?opn = [] then Children p1 = Children q1 @ [newChild v] \<and> r1 = [length (Children q1)]
       else \<exists>parent. getChild (Children q1) (child (last ?opn)) = Some parent \<and>
              Children p1 = updChild (appendChild (newChild v)) (Children q1) (child (last ?opn)) \<and>
              getChild (Children p1) (child (last ?opn)) = Some (appendChild (newChild v) parent) \<and>
              r1 = child (last ?opn) @ [length (ZDBPoolChild.Children parent)]"
    by (auto simp: processLine_def)
  from processFields_type[OF wf2, of d v] lf obtain p2 r2 where
    run2: "processLine (q2, s) l = Inr (p2, ?opn @ [\<lparr>child = r2, indent = d\<rparr>])"
    and a2: "if ?opn = [] then Children p2 = Children q2 @ [newChild v] \<and> r2 = [length (Children q2)]
       else \<exists>parent. getChild (Children q2) (child (last ?opn)) = Some parent \<and>
              Children p2 = updChild (appendChild (newChild v)) (Children q2) (child (last ?opn)) \<and>
              getChild (Children p2) (child (last ?opn)) = Some (appendChild (newChild v) parent) \<and>
              r2 = child (last ?opn) @ [length (ZDBPoolChild.Children parent)]"
    by (auto simp: processLine_def)
  have "r1 = r2 \<and> map shapeOf (Children p1) = map shapeOf (Children p2)"
  proof (cases "?opn = []")
    case True
    with a1 a2 sh show ?thesis by (auto dest: map_eq_imp_length_eq)
  next
    case False
    with a1 obtain par1 where
      par1: "getChild (Children q1) (child (last ?opn)) = Some par1"
      and c1: "Children p1 = updChild (appendChild (newChild v)) (Children q1) (child (last ?opn))"
      and r1: "r1 = child (last ?opn) @ [length (ZDBPoolChild.Children par1)]"
      by auto
    from False a2 obtain par2 where
      par2: "getChild (Children q2) (child (last ?opn)) = Some par2"
      and c2: "Children p2 = updChild (appendChild (newChild v)) (Children q2) (child (last ?opn))"
      and r2: "r2 = child (last ?opn) @ [length (ZDBPoolChild.Children par2)]"
      by auto
    from getChild_shape[OF sh par1] par2 have "shapeOf par2 = shapeOf par1" by simp
    then have "length (ZDBPoolChild.Children par1) = length (ZDBPoolChild.Children par2)"
      by (simp add: shapeOf_eq[of par1] shapeOf_eq[of par2]) (metis length_map)
    moreover have "map shapeOf (Children p1) = map shapeOf (Children p2)"
      unfolding c1 c2 by (rule updChild_shape_cong[OF sh]) (rule shapeOf_appendChild)
    ultimately show ?thesis using r1 r2 by simp
  qed
  with run2 s1 show ?thesis by auto
qed

lemma parseLines_type_lines_shape:
  assumes "wfState (q1, s)" and "wfState (q2, s)"
    and "map shapeOf (Children q1) = map shapeOf (Children q2)"
    and "parseLines (q1, s) ls = Inr (p1, s1)"
  shows "\<exists>p2. parseLines (q2, s) (filter isTypeLine ls) = Inr (p2, s1) \<and>
      map shapeOf (Children p1) = map shapeOf (Children p2)"
  using assms
proof (induction ls arbitrary: q1 q2 s)
  case Nil
  then show ?case by simp
next
  case (Cons l ls)
  from Cons.prems(4) obtain q1' s' where
    step: "processLine (q1, s) l = Inr (q1', s')" and rest: "parseLines (q1', s') ls = Inr (p1, s1)"
    by (auto split: sum.splits)
  from Cons.prems(1) step have wf1': "wfState (q1', s')" by (rule processLine_wf)
  show ?case
  proof (cases "isTypeLine l")
    case True
    from processLine_type_shape[OF Cons.prems(1,2,3) True step] obtain q2' where
      step2: "processLine (q2, s) l = Inr (q2', s')"
      and sh': "map shapeOf (Children q1') = map shapeOf (Children q2')"
      by blast
    from Cons.prems(2) step2 have wf2': "wfState (q2', s')" by (rule processLine_wf)
    from Cons.IH[OF wf1' wf2' sh' rest] True step2 show ?thesis by simp
  next
    case False
    from processLine_other_shape[OF Cons.prems(1) False step]
    have s': "s' = s" and sh': "map shapeOf (Children q1') = map shapeOf (Children q1)"
      by simp_all
    from Cons.IH[of q1' s q2] wf1' Cons.prems(2,3) sh' rest s' False show ?thesis by simp
  qed
qed

section \<open>The claims\<close>

text \<open>
  C1. Let a \<open>type\<close> line at depth d (its number of leading tabs) be read in a state the
  parser has reached on some input. The loop that pops leaves exactly the frames whose
  recorded depth is below d, in their order. The new node becomes the last child of the
  node of the topmost frame left, or the last top-level child of the pool when no frame
  is left, and a frame for the new node, with depth d, is pushed on the frames left. The
  pool's own fields stay as they are.
\<close>

theorem type_line_closes_and_attaches:
  assumes "parseLines (initState name currentGUID) pre = Inr (p, stack)"
    and "lineFields rawLine = Some (d, ''type'', val)"
  shows "popFrames d stack = filter (\<lambda>f. indent f < d) stack \<and>
    (\<exists>p' r.
      processLine (p, stack) rawLine =
        Inr (p', filter (\<lambda>f. indent f < d) stack @ [\<lparr>child = r, indent = d\<rparr>]) \<and>
      getChild (Children p') r = Some (newChild val) \<and>
      ZDBPool.GUID p' = ZDBPool.GUID p \<and> Name p' = Name p \<and> Version p' = Version p \<and>
      (if filter (\<lambda>f. indent f < d) stack = []
       then Children p' = Children p @ [newChild val] \<and> r = [length (Children p)]
       else \<exists>parent.
              getChild (Children p) (child (last (filter (\<lambda>f. indent f < d) stack))) =
                Some parent \<and>
              Children p' =
                updChild (appendChild (newChild val)) (Children p)
                  (child (last (filter (\<lambda>f. indent f < d) stack))) \<and>
              getChild (Children p') (child (last (filter (\<lambda>f. indent f < d) stack))) =
                Some (appendChild (newChild val) parent) \<and>
              r = child (last (filter (\<lambda>f. indent f < d) stack)) @
                    [length (ZDBPoolChild.Children parent)]))"
proof -
  from assms(1) have wf: "wfState (p, stack)"
    by (rule parseLines_wf[OF wfState_initState])
  then have "sorted_wrt (<) (map indent stack)"
    by (simp add: wfState_def)
  then have "popFrames d stack = filter (\<lambda>f. indent f < d) stack"
    by (rule popFrames_filter)
  moreover from processFields_type[OF wf, of d val] assms(2)
  have "\<exists>p' r.
      processLine (p, stack) rawLine =
        Inr (p', filter (\<lambda>f. indent f < d) stack @ [\<lparr>child = r, indent = d\<rparr>]) \<and>
      getChild (Children p') r = Some (newChild val) \<and>
      ZDBPool.GUID p' = ZDBPool.GUID p \<and> Name p' = Name p \<and> Version p' = Version p \<and>
      (if filter (\<lambda>f. indent f < d) stack = []
       then Children p' = Children p @ [newChild val] \<and> r = [length (Children p)]
       else \<exists>parent.
              getChild (Children p) (child (last (filter (\<lambda>f. indent f < d) stack))) =
                Some parent \<and>
              Children p' =
                updChild (appendChild (newChild val)) (Children p)
                  (child (last (filter (\<lambda>f. indent f < d) stack))) \<and>
              getChild (Children p') (child (last (filter (\<lambda>f. indent f < d) stack))) =
                Some (appendChild (newChild val) parent) \<and>
              r = child (last (filter (\<lambda>f. indent f < d) stack)) @
                    [length (ZDBPoolChild.Children parent)])"
    unfolding processLine_def by (simp only: option.case prod.case) blast
  ultimately show ?thesis by (rule conjI)
qed

theorem type_line_closes_and_attaches_witness:
  "parseLines (initState ''tank'' []) nestedLines = Inr (nestedPool, nestedStack) \<and>
   lineFields ([tab] @ ''type: d'') = Some (1, ''type'', ''d'') \<and>
   filter (\<lambda>f. indent f < 1) nestedStack = [\<lparr>child = [0], indent = 0\<rparr>] \<and>
   popFrames 1 nestedStack = filter (\<lambda>f. indent f < 1) nestedStack \<and>
   processLine (nestedPool, nestedStack) ([tab] @ ''type: d'') =
     Inr (\<lparr>Name = ''tank'', GUID = [], Version = [],
           Children =
             [appendChild (newChild ''d'')
                (appendChild (appendChild (newChild ''c'') (newChild ''b'')) (newChild ''a''))]\<rparr>,
          [\<lparr>child = [0], indent = 0\<rparr>, \<lparr>child = [0, 1], indent = 1\<rparr>])"
proof -
  have lf: "lineFields ([tab] @ ''type: d'') = Some (1, ''type'', ''d'')"
    by (simp add: lineFields_def TrimLeft_def SplitN2_def trim_eval)
  have flt: "filter (\<lambda>f. indent f < 1) nestedStack = [\<lparr>child = [0], indent = 0\<rparr>]"
    by (simp add: nestedStack_def)
  have par: "getChild (Children nestedPool) [0] =
      Some (appendChild (appendChild (newChild ''c'') (newChild ''b'')) (newChild ''a''))"
    by (simp add: nestedPool_def)
  note th = type_line_closes_and_attaches[OF parseLines_nestedLines lf]
  from th have pop: "popFrames 1 nestedStack = filter (\<lambda>f. indent f < 1) nestedStack"
    by (rule conjunct1)
  have flt0: "filter (\<lambda>f. indent f = 0) nestedStack = [\<lparr>child = [0], indent = 0\<rparr>]"
    by (simp add: nestedStack_def)
  from th[THEN conjunct2] par obtain p' r where
    pl: "processLine (nestedPool, nestedStack) ([tab] @ ''type: d'') =
        Inr (p', [\<lparr>child = [0], indent = 0\<rparr>, \<lparr>child = r, indent = 1\<rparr>])"
    and own: "ZDBPool.GUID p' = ZDBPool.GUID nestedPool" "Name p' = Name nestedPool"
      "Version p' = Version nestedPool"
    and ch: "Children p' = updChild (appendChild (newChild ''d'')) (Children nestedPool) [0]"
    and r: "r = [0] @ [length (ZDBPoolChild.Children
          (appendChild (appendChild (newChild ''c'') (newChild ''b'')) (newChild ''a'')))]"
    by (auto simp: flt0 simp del: updChild.simps getChild.simps)
  from own ch have "p' = \<lparr>Name = ''tank'', GUID = [], Version = [],
           Children =
             [appendChild (newChild ''d'')
                (appendChild (appendChild (newChild ''c'') (newChild ''b'')) (newChild ''a''))]\<rparr>"
    by (simp add: nestedPool_def)
  moreover from r have "r = [0, 1]"
    by (simp add: appendChild_def Children_newChild)
  ultimately show ?thesis
    using pop pl lf flt parseLines_nestedLines by simp
qed

text \<open>
  C2, as far as it holds. The sample output \<open>testutil.ZDBOutput\<close> has thirteen lines.
  Parsing it yields a pool with Version 5000 and Name tank (and the GUID of the caller)
  and exactly one top-level node, of Type root, with ID 0, GUID 12345678901234567890, Path
  /dev/ada0p3, WholeDisk 0, MetaslabArray 71, MetaslabShift 24, Ashift 9, Asize
  10737418240, IsLog 0, CreateTXG 4 and no children. The property map of the node holds
  the eleven entries of the node's own lines, from \<open>type\<close> to \<open>create_txg\<close>, and nothing
  else: the \<open>version\<close> and \<open>name\<close> lines are read into the pool, not into a node.
\<close>

theorem GetPool_ZDBOutput:
  "length ZDBOutputLines = 13 \<and>
   returned (GetPool (testZDB ''tank'' ZDBOutput 0) nowLookup nowStore cache ''tank'' currentGUID) =
     Inr \<lparr>Name = ''tank'', GUID = currentGUID, Version = ''5000'',
          Children =
            [ZDBPoolChild
               \<lparr>Type = ''root'', ID = 0, ZDBPoolChildFields.GUID = 12345678901234567890,
                Path = ''/dev/ada0p3'', WholeDisk = 0, MetaslabArray = 71, MetaslabShift = 24,
                Ashift = 9, Asize = 10737418240, IsLog = 0, CreateTXG = 4,
                Properties =
                  [''type'' \<mapsto> ''root'', ''id'' \<mapsto> ''0'', ''guid'' \<mapsto> ''12345678901234567890'',
                   ''path'' \<mapsto> ''/dev/ada0p3'', ''whole_disk'' \<mapsto> ''0'',
                   ''metaslab_array'' \<mapsto> ''71'', ''metaslab_shift'' \<mapsto> ''24'', ''ashift'' \<mapsto> ''9'',
                   ''asize'' \<mapsto> ''10737418240'', ''is_log'' \<mapsto> ''0'', ''create_txg'' \<mapsto> ''4'']\<rparr>
               []]\<rparr> \<and>
   dom (Properties (childFields ZDBOutputRoot)) =
     {''create_txg'', ''is_log'', ''asize'', ''ashift'', ''metaslab_shift'', ''metaslab_array'',
      ''whole_disk'', ''path'', ''guid'', ''id'', ''type''}"
proof -
  have miss: "cacheLookup (0 < (0::int)) cache (cacheKey ''tank'' currentGUID) nowLookup = None"
    by (simp add: cacheLookup_def)
  note run = GetPool_testZDB_ZDBOutput[OF miss, of nowStore]
  have "length ZDBOutputLines = 13" by (simp add: ZDBOutputLines_def)
  with dom_ZDBOutputRoot show ?thesis
    by (simp add: run) (simp add: ZDBOutputRoot_def)
qed

text \<open>
  C2 as stated fails in its count: the property map of the node has eleven entries, not
  twelve, and none for \<open>version\<close> or \<open>name\<close>.
\<close>

theorem ZDBOutput_properties_are_eleven:
  "returned (GetPool (testZDB ''tank'' ZDBOutput 0) 10 20 Map.empty ''tank'' []) =
     Inr \<lparr>Name = ''tank'', GUID = [], Version = ''5000'', Children = [ZDBOutputRoot]\<rparr> \<and>
   card (dom (Properties (childFields ZDBOutputRoot))) = 11 \<and>
   \<not> 12 \<le> card (dom (Properties (childFields ZDBOutputRoot))) \<and>
   Properties (childFields ZDBOutputRoot) ''version'' = None \<and>
   Properties (childFields ZDBOutputRoot) ''name'' = None"
proof -
  have miss: "cacheLookup (0 < (0::int)) Map.empty (cacheKey ''tank'' []) 10 = None"
    by (simp add: cacheLookup_def)
  note run = GetPool_testZDB_ZDBOutput[OF miss, of 20]
  have c: "card (dom (Properties (childFields ZDBOutputRoot))) = 11"
    unfolding dom_ZDBOutputRoot by simp
  have n: "Properties (childFields ZDBOutputRoot) ''version'' = None"
      "Properties (childFields ZDBOutputRoot) ''name'' = None"
    by (simp_all add: ZDBOutputRoot_def)
  from c n show ?thesis by (simp add: run)
qed

text \<open>
  C3. Let a line that is no \<open>type\<close> line and that has a property and a value be read
  while the stack is not empty, in a state the parser has reached on some input. Then the
  property is written to the node of the frame on top of the stack, whatever the depth of
  the line: the node's map gets the entry, the stack stays, and the same line at any other
  depth does the same. For a whole input, changing the depths of lines that are no \<open>type\<close>
  lines changes nothing in the result; and the stack and the shape of the tree (the types
  of the nodes and their nesting) are those that the \<open>type\<close> lines alone produce.
\<close>

theorem property_line_depth_independent:
  "(parseLines (initState name currentGUID) pre = Inr (p, stack) \<and> stack \<noteq> [] \<and>
    lineFields rawLine = Some (d, pr, val) \<and> pr \<noteq> ''type''
      \<longrightarrow> (\<exists>c. getChild (Children p) (child (last stack)) = Some c \<and>
            Properties (childFields (fst (parseProp c pr val))) pr = Some val \<and>
            processLine (p, stack) rawLine =
              (case snd (parseProp c pr val) of
                 Some err \<Rightarrow> Inl err
               | None \<Rightarrow>
                   Inr (p\<lparr>Children := updChild (\<lambda>_. fst (parseProp c pr val)) (Children p)
                                            (child (last stack))\<rparr>, stack)) \<and>
            getChild (updChild (\<lambda>_. fst (parseProp c pr val)) (Children p) (child (last stack)))
              (child (last stack)) = Some (fst (parseProp c pr val)) \<and>
            processLine (p, stack) (setIndent k rawLine) = processLine (p, stack) rawLine)) \<and>
   (list_all2 reindented ls ls'
      \<longrightarrow> parseLines (initState name currentGUID) ls' = parseLines (initState name currentGUID) ls) \<and>
   (parseLines (initState name currentGUID) lines = Inr (q, qstack)
      \<longrightarrow> (\<exists>p2. parseLines (initState name currentGUID) (filter isTypeLine lines) = Inr (p2, qstack) \<and>
            map shapeOf (Children p2) = map shapeOf (Children q)))"
proof (intro conjI impI)
  assume a: "parseLines (initState name currentGUID) pre = Inr (p, stack) \<and> stack \<noteq> [] \<and>
    lineFields rawLine = Some (d, pr, val) \<and> pr \<noteq> ''type''"
  then have wf: "wfState (p, stack)"
    by (auto intro: parseLines_wf[OF wfState_initState])
  from a have ne: "stack \<noteq> []" and lf: "lineFields rawLine = Some (d, pr, val)"
    and nt: "pr \<noteq> ''type''"
    by simp_all
  from processFields_other[OF wf ne nt, of d val] obtain c where
    c: "getChild (Children p) (child (last stack)) = Some c"
    and eq: "processFields (p, stack) (d, pr, val) =
        (case snd (parseProp c pr val) of
           Some err \<Rightarrow> Inl err
         | None \<Rightarrow> Inr (p\<lparr>Children := updChild (\<lambda>_. fst (parseProp c pr val)) (Children p)
                                          (child (last stack))\<rparr>, stack))"
    by blast
  from lf nt have "\<not> isTypeLine rawLine" by (simp add: isTypeLine_def)
  then have "processLine (p, stack) (setIndent k rawLine) = processLine (p, stack) rawLine"
    by (rule processLine_setIndent)
  moreover from lf eq have "processLine (p, stack) rawLine =
        (case snd (parseProp c pr val) of
           Some err \<Rightarrow> Inl err
         | None \<Rightarrow> Inr (p\<lparr>Children := updChild (\<lambda>_. fst (parseProp c pr val)) (Children p)
                                          (child (last stack))\<rparr>, stack))"
    by (simp add: processLine_def)
  moreover have "getChild (updChild (\<lambda>_. fst (parseProp c pr val)) (Children p) (child (last stack)))
              (child (last stack)) = Some (fst (parseProp c pr val))"
    by (rule getChild_updChild_same[OF c])
  ultimately show "\<exists>c. getChild (Children p) (child (last stack)) = Some c \<and>
            Properties (childFields (fst (parseProp c pr val))) pr = Some val \<and>
            processLine (p, stack) rawLine =
              (case snd (parseProp c pr val) of
                 Some err \<Rightarrow> Inl err
               | None \<Rightarrow>
                   Inr (p\<lparr>Children := updChild (\<lambda>_. fst (parseProp c pr val)) (Children p)
                                            (child (last stack))\<rparr>, stack)) \<and>
            getChild (updChild (\<lambda>_. fst (parseProp c pr val)) (Children p) (child (last stack)))
              (child (last stack)) = Some (fst (parseProp c pr val)) \<and>
            processLine (p, stack) (setIndent k rawLine) = processLine (p, stack) rawLine"
    using c parseProp_Properties[of c pr val] by blast
next
  assume "list_all2 reindented ls ls'"
  then show "parseLines (initState name currentGUID) ls' = parseLines (initState name currentGUID) ls"
    by (rule parseLines_reindented)
next
  assume run: "parseLines (initState name currentGUID) lines = Inr (q, qstack)"
  have wf: "wfState (fst (initState name currentGUID), [])"
    using wfState_initState[of name currentGUID] by (simp add: initState_def)
  from run have "parseLines (fst (initState name currentGUID), []) lines = Inr (q, qstack)"
    by (simp add: initState_def)
  from parseLines_type_lines_shape[OF wf wf refl this]
  show "\<exists>p2. parseLines (initState name currentGUID) (filter isTypeLine lines) = Inr (p2, qstack) \<and>
            map shapeOf (Children p2) = map shapeOf (Children q)"
    by (auto simp: initState_def)
qed

theorem property_line_depth_independent_witness:
  "parseLines (initState ''tank'' []) nestedLines = Inr (nestedPool, nestedStack) \<and>
   nestedStack \<noteq> [] \<and>
   lineFields ''id: 7'' = Some (0, ''id'', ''7'') \<and>
   ''id'' \<noteq> ''type'' \<and>
   getChild (Children nestedPool) (child (last nestedStack)) = Some (newChild ''c'') \<and>
   Properties (childFields (fst (parseProp (newChild ''c'') ''id'' ''7''))) ''id'' = Some ''7'' \<and>
   processLine (nestedPool, nestedStack) ''id: 7'' =
     Inr (nestedPool\<lparr>Children :=
            updChild (\<lambda>_. fst (parseProp (newChild ''c'') ''id'' ''7'')) (Children nestedPool)
              [0, 0, 0]\<rparr>, nestedStack) \<and>
   processLine (nestedPool, nestedStack) (setIndent 5 ''id: 7'') =
     processLine (nestedPool, nestedStack) ''id: 7'' \<and>
   list_all2 reindented [''type: a'', ''id: 7''] [''type: a'', [tab, tab] @ ''id: 7''] \<and>
   parseLines (initState ''tank'' []) [''type: a'', [tab, tab] @ ''id: 7''] =
     parseLines (initState ''tank'' []) [''type: a'', ''id: 7''] \<and>
   parseLines (initState ''tank'' []) [''type: a'', ''id: 7''] =
     Inr (\<lparr>Name = ''tank'', GUID = [], Version = [],
           Children = [fst (parseProp (newChild ''a'') ''id'' ''7'')]\<rparr>,
          [\<lparr>child = [0], indent = 0\<rparr>]) \<and>
   (\<exists>p2. parseLines (initState ''tank'' []) (filter isTypeLine [''type: a'', ''id: 7'']) =
            Inr (p2, [\<lparr>child = [0], indent = 0\<rparr>]) \<and>
         map shapeOf (Children p2) =
           map shapeOf [fst (parseProp (newChild ''a'') ''id'' ''7'')])"
proof -
  have lf: "lineFields ''id: 7'' = Some (0, ''id'', ''7'')"
    "lineFields ''type: a'' = Some (0, ''type'', ''a'')"
    by (simp_all add: lineFields_def TrimLeft_def SplitN2_def trim_eval)
  have sc: "Sscan_int ''7'' = Inr 7" by (simp add: scan_eval)
  have ok: "snd (parseProp c ''id'' ''7'') = None" for c
    by (simp add: snd_parseProp conversionError_def sc)
  have ne: "nestedStack \<noteq> []" by (simp add: nestedStack_def)
  have top: "child (last nestedStack) = [0, 0, 0]" by (simp add: nestedStack_def)
  have c: "getChild (Children nestedPool) (child (last nestedStack)) = Some (newChild ''c'')"
    by (simp add: top nestedPool_def appendChild_def Children_newChild)
  have re: "list_all2 reindented [''type: a'', ''id: 7''] [''type: a'', [tab, tab] @ ''id: 7'']"
    by (simp add: reindented_def isTypeLine_def lf)
  have run: "parseLines (initState ''tank'' []) [''type: a'', ''id: 7''] =
     Inr (\<lparr>Name = ''tank'', GUID = [], Version = [],
           Children = [fst (parseProp (newChild ''a'') ''id'' ''7'')]\<rparr>,
          [\<lparr>child = [0], indent = 0\<rparr>])"
    using ok[of "newChild ''a''"]
    by (auto simp: initState_def processLine_def lf processFields_def split: prod.splits)
  note th = property_line_depth_independent[where name = "''tank''" and currentGUID = "[]"
      and pre = nestedLines and p = nestedPool and stack = nestedStack and rawLine = "''id: 7''"
      and d = 0 and pr = "''id''" and val = "''7''" and k = 5
      and ls = "[''type: a'', ''id: 7'']" and ls' = "[''type: a'', [tab, tab] @ ''id: 7'']"
      and lines = "[''type: a'', ''id: 7'']"
      and q = "\<lparr>Name = ''tank'', GUID = [], Version = [],
           Children = [fst (parseProp (newChild ''a'') ''id'' ''7'')]\<rparr>"
      and qstack = "[\<lparr>child = [0], indent = 0\<rparr>]"]
  from th[THEN conjunct1] parseLines_nestedLines ne lf(1) c
  have one: "Properties (childFields (fst (parseProp (newChild ''c'') ''id'' ''7''))) ''id'' = Some ''7'' \<and>
      processLine (nestedPool, nestedStack) ''id: 7'' =
        Inr (nestedPool\<lparr>Children :=
            updChild (\<lambda>_. fst (parseProp (newChild ''c'') ''id'' ''7'')) (Children nestedPool)
              [0, 0, 0]\<rparr>, nestedStack) \<and>
      processLine (nestedPool, nestedStack) (setIndent 5 ''id: 7'') =
        processLine (nestedPool, nestedStack) ''id: 7''"
    by (simp add: ok top)
  from th[THEN conjunct2, THEN conjunct1] re
  have two: "parseLines (initState ''tank'' []) [''type: a'', [tab, tab] @ ''id: 7''] =
     parseLines (initState ''tank'' []) [''type: a'', ''id: 7'']"
    by simp
  from th[THEN conjunct2, THEN conjunct2] run
  have three: "\<exists>p2. parseLines (initState ''tank'' []) (filter isTypeLine [''type: a'', ''id: 7'']) =
            Inr (p2, [\<lparr>child = [0], indent = 0\<rparr>]) \<and>
         map shapeOf (Children p2) =
           map shapeOf [fst (parseProp (newChild ''a'') ''id'' ''7'')]"
    by simp
  from parseLines_nestedLines ne lf(1) c one re two run three show ?thesis
    by simp
qed

text \<open>
  C4, as far as it holds. Let the output of zdb have a line for one of the nine typed
  fields whose value fails its typed conversion, read while a node is open and after
  lines that all parsed. Then the whole call fails with the error of \<open>parseProp\<close> for that
  field: its text is "failed to parse", the name of the field and the scanner's message.
  No pool is returned, the cache stays as it is. The error does not carry the pool's name.
\<close>

theorem conversion_failure_aborts:
  assumes "cacheLookup (0 < cacheTTL z) cache (cacheKey name currentGUID) nowLookup = None"
    and "zdbOutput z (zdbArgs @ [name]) = Inr (pre @ rawLine # post)"
    and "parseLines (initState name currentGUID) pre = Inr (p, stack)"
    and "stack \<noteq> []"
    and "lineFields rawLine = Some (d, pr, val)"
    and "conversionError pr val = Some err"
  shows "GetPool z nowLookup nowStore cache name currentGUID =
     \<lparr>returned = Inl (ParsePropError pr err), zdbCache = cache,
      runs = [invocation (cmd z) (zdbArgs @ [name])]\<rparr> \<and>
     Error (ParsePropError pr err) = ''failed to parse '' @ pr @ '': '' @ scan_error_text err"
proof -
  from assms(3) have wf: "wfState (p, stack)"
    by (rule parseLines_wf[OF wfState_initState])
  from assms(6) have nt: "pr \<noteq> ''type''"
    by (auto simp: conversionError_def)
  from processFields_other[OF wf assms(4) nt, of d val] assms(6)
  have "processFields (p, stack) (d, pr, val) = Inl (ParsePropError pr err)"
    by (auto simp: snd_parseProp)
  with assms(5) have "processLine (p, stack) rawLine = Inl (ParsePropError pr err)"
    by (simp add: processLine_def)
  with assms(3) have "parseLines (initState name currentGUID) (pre @ rawLine # post) =
      Inl (ParsePropError pr err)"
    by (simp add: parseLines_append)
  with assms(1,2) show ?thesis
    by (simp add: GetPool_def Let_def Error_def)
qed

theorem conversion_failure_aborts_witness:
  "zdbOutput (testZDB ''tank'' (Join badGuidLines [newline]) 0) (zdbArgs @ [''tank'']) =
     Inr ([[tab] @ ''type: root''] @ ([tab, tab] @ ''guid: not-a-number'') # []) \<and>
   parseLines (initState ''tank'' []) [[tab] @ ''type: root''] =
     Inr (\<lparr>Name = ''tank'', GUID = [], Version = [], Children = [newChild ''root'']\<rparr>,
          [\<lparr>child = [0], indent = 1\<rparr>]) \<and>
   lineFields ([tab, tab] @ ''guid: not-a-number'') = Some (2, ''guid'', ''not-a-number'') \<and>
   conversionError ''guid'' ''not-a-number'' = Some ExpectedInteger \<and>
   GetPool (testZDB ''tank'' (Join badGuidLines [newline]) 0) 10 20 oneEntryCache ''tank'' [] =
     \<lparr>returned = Inl (ParsePropError ''guid'' ExpectedInteger), zdbCache = oneEntryCache,
      runs = [(''zdb'', [''-C'', ''tank''])]\<rparr> \<and>
   Error (ParsePropError ''guid'' ExpectedInteger) = ''failed to parse guid: expected integer''"
proof -
  have m: "cacheLookup (0 < cacheTTL (testZDB ''tank'' (Join badGuidLines [newline]) 0))
      oneEntryCache (cacheKey ''tank'' []) 10 = None"
    by (simp add: cacheLookup_def testZDB_def)
  have "Split (Join badGuidLines [newline]) newline = badGuidLines"
    by (rule Split_Join) (simp_all add: badGuidLines_def)
  moreover have "TrimRight (Join badGuidLines [newline]) [newline] = Join badGuidLines [newline]"
    by (rule TrimRight_id) (simp_all add: badGuidLines_def)
  moreover have "Join badGuidLines [newline] \<noteq> []" by (simp add: badGuidLines_def)
  ultimately have
    out: "zdbOutput (testZDB ''tank'' (Join badGuidLines [newline]) 0) (zdbArgs @ [''tank'']) =
      Inr ([[tab] @ ''type: root''] @ ([tab, tab] @ ''guid: not-a-number'') # [])"
    by (simp add: zdbOutput_testZDB) (simp add: badGuidLines_def)
  have lf1: "lineFields ([tab] @ ''type: root'') = Some (1, ''type'', ''root'')"
    by (simp add: lineFields_def TrimLeft_def SplitN2_def trim_eval)
  have pre: "parseLines (initState ''tank'' []) [[tab] @ ''type: root''] =
     Inr (\<lparr>Name = ''tank'', GUID = [], Version = [], Children = [newChild ''root'']\<rparr>,
          [\<lparr>child = [0], indent = 1\<rparr>])"
    using lf1 by (simp add: initState_def processLine_def processFields_def)
  have ne: "[\<lparr>child = [0], indent = 1\<rparr>] \<noteq> []" by simp
  have lf2: "lineFields ([tab, tab] @ ''guid: not-a-number'') = Some (2, ''guid'', ''not-a-number'')"
    by (simp add: lineFields_def TrimLeft_def SplitN2_def trim_eval)
  have ce: "conversionError ''guid'' ''not-a-number'' = Some ExpectedInteger"
    by (simp add: conversionError_def scan_eval)
  from conversion_failure_aborts[OF m out pre ne lf2 ce, of 20] out pre lf2 ce
  show ?thesis
    by (simp add: invocation_testZDB scan_error_text_def)
qed

text \<open>
  C4 as stated fails in what the error names. For the pool \<open>tank\<close> and a \<open>guid\<close> that is
  no number the error reads "failed to parse guid: expected integer": it names the
  field, and the name of the pool occurs nowhere in it.
\<close>

theorem conversion_error_does_not_name_pool:
  "returned (GetPool (testZDB ''tank'' (Join badGuidLines [newline]) 0) 10 20 Map.empty ''tank'' []) =
     Inl (ParsePropError ''guid'' ExpectedInteger) \<and>
   Error (ParsePropError ''guid'' ExpectedInteger) = ''failed to parse guid: expected integer'' \<and>
   \<not> sublist ''tank'' (Error (ParsePropError ''guid'' ExpectedInteger))"
proof -
  have "Split (Join badGuidLines [newline]) newline = badGuidLines"
    by (rule Split_Join) (simp_all add: badGuidLines_def)
  moreover have "TrimRight (Join badGuidLines [newline]) [newline] = Join badGuidLines [newline]"
    by (rule TrimRight_id) (simp_all add: badGuidLines_def)
  moreover have "Join badGuidLines [newline] \<noteq> []" by (simp add: badGuidLines_def)
  ultimately have
    out: "zdbOutput (testZDB ''tank'' (Join badGuidLines [newline]) 0) (zdbArgs @ [''tank'']) =
      Inr badGuidLines"
    by (simp add: zdbOutput_testZDB)
  have lf: "lineFields ([tab] @ ''type: root'') = Some (1, ''type'', ''root'')"
    "lineFields ([tab, tab] @ ''guid: not-a-number'') = Some (2, ''guid'', ''not-a-number'')"
    by (simp_all add: lineFields_def TrimLeft_def SplitN2_def trim_eval)
  have sc: "Sscan_uint64 ''not-a-number'' = Inl ExpectedInteger"
    by (simp add: scan_eval)
  have "parseLines (initState ''tank'' []) badGuidLines = Inl (ParsePropError ''guid'' ExpectedInteger)"
    using lf
    by (simp add: badGuidLines_def initState_def processLine_def processFields_def newChild_def
        parseProp_def sc)
  with out have r: "returned (GetPool (testZDB ''tank'' (Join badGuidLines [newline]) 0) 10 20
      Map.empty ''tank'' []) = Inl (ParsePropError ''guid'' ExpectedInteger)"
    by (simp add: GetPool_def Let_def cacheLookup_def testZDB_def badGuidLines_def)
  have e: "Error (ParsePropError ''guid'' ExpectedInteger) = ''failed to parse guid: expected integer''"
    by (simp add: Error_def scan_error_text_def)
  have "\<not> sublist ''tank'' ''failed to parse guid: expected integer''"
    by (simp add: sublist_code)
  with r e show ?thesis by simp
qed

text \<open>
  C5, as far as it holds. When zdb runs without error, a call that is not answered from
  the cache returns the "no output" error exactly when zdb printed nothing, or nothing but
  line feeds. The error names the pool; no pool is returned and the cache stays as it is.
  Any other output of white space only (\<open>strings.TrimSpace\<close> leaves nothing of it) is no
  error: all its lines are blank and skipped, and the call returns a pool that has the
  caller's name and GUID, no version and no nodes, and stores it when caching is enabled.
\<close>

theorem line_feeds_only_is_no_output:
  assumes "RunBytes (cmd z) (zdbArgs @ [name]) = Inr (out, errOut)"
    and "cacheLookup (0 < cacheTTL z) cache (cacheKey name currentGUID) nowLookup = None"
  shows "(set out \<subseteq> {newline} \<longrightarrow>
           GetPool z nowLookup nowStore cache name currentGUID =
             \<lparr>returned = Inl (NoOutputError name), zdbCache = cache,
              runs = [invocation (cmd z) (zdbArgs @ [name])]\<rparr>) \<and>
         (\<not> set out \<subseteq> {newline} \<longrightarrow>
           returned (GetPool z nowLookup nowStore cache name currentGUID) \<noteq>
             Inl (NoOutputError name)) \<and>
         (TrimSpace out = [] \<and> \<not> set out \<subseteq> {newline} \<longrightarrow>
           GetPool z nowLookup nowStore cache name currentGUID =
             \<lparr>returned =
                Inr \<lparr>Name = name, GUID = currentGUID, Version = [], Children = []\<rparr>,
              zdbCache =
                (if 0 < cacheTTL z
                 then cache(cacheKey name currentGUID \<mapsto>
                        \<lparr>pool = \<lparr>Name = name, GUID = currentGUID, Version = [],
                                 Children = []\<rparr>,
                         guid = currentGUID, expiry = nowStore + cacheTTL z\<rparr>)
                 else cache),
              runs = [invocation (cmd z) (zdbArgs @ [name])]\<rparr>) \<and>
         Error (NoOutputError name) = ''no output from zdb for pool '' @ name"
proof (intro conjI impI)
  assume "set out \<subseteq> {newline}"
  then have "TrimRight out [newline] = []"
    by (simp add: TrimRight_Nil_iff)
  with assms(1) have "zdbOutput z (zdbArgs @ [name]) = Inr []"
    by (simp add: zdbOutput_def)
  with assms(2) show "GetPool z nowLookup nowStore cache name currentGUID =
             \<lparr>returned = Inl (NoOutputError name), zdbCache = cache,
              runs = [invocation (cmd z) (zdbArgs @ [name])]\<rparr>"
    by (simp add: GetPool_def Let_def)
next
  assume "\<not> set out \<subseteq> {newline}"
  then have "TrimRight out [newline] \<noteq> []"
    by (simp add: TrimRight_Nil_iff)
  with assms(1) have out: "zdbOutput z (zdbArgs @ [name]) = Inr (Split (TrimRight out [newline]) newline)"
    by (simp add: zdbOutput_def)
  show "returned (GetPool z nowLookup nowStore cache name currentGUID) \<noteq>
             Inl (NoOutputError name)"
  proof (cases "parseLines (initState name currentGUID) (Split (TrimRight out [newline]) newline)")
    case (Inl err)
    then obtain field e where "err = ParsePropError field e"
      by (blast dest: parseLines_error)
    with Inl assms(2) out show ?thesis
      by (simp add: GetPool_def Let_def Split_not_Nil)
  next
    case (Inr st)
    with assms(2) out show ?thesis
      by (simp add: GetPool_def Let_def Split_not_Nil split: prod.splits)
  qed
next
  assume "TrimSpace out = [] \<and> \<not> set out \<subseteq> {newline}"
  then have blank: "TrimSpace out = []" and "TrimRight out [newline] \<noteq> []"
    by (simp_all add: TrimRight_Nil_iff)
  with assms(1) have out: "zdbOutput z (zdbArgs @ [name]) = Inr (Split (TrimRight out [newline]) newline)"
    by (simp add: zdbOutput_def)
  from blank have "\<forall>l \<in> set (Split (TrimRight out [newline]) newline). lineFields l = None"
    by (blast intro: lineFields_blank_output)
  then have "parseLines (initState name currentGUID) (Split (TrimRight out [newline]) newline) =
      Inr (initState name currentGUID)"
    by (rule parseLines_blank)
  with assms(2) out show "GetPool z nowLookup nowStore cache name currentGUID =
             \<lparr>returned =
                Inr \<lparr>Name = name, GUID = currentGUID, Version = [], Children = []\<rparr>,
              zdbCache =
                (if 0 < cacheTTL z
                 then cache(cacheKey name currentGUID \<mapsto>
                        \<lparr>pool = \<lparr>Name = name, GUID = currentGUID, Version = [],
                                 Children = []\<rparr>,
                         guid = currentGUID, expiry = nowStore + cacheTTL z\<rparr>)
                 else cache),
              runs = [invocation (cmd z) (zdbArgs @ [name])]\<rparr>"
    by (simp add: GetPool_def Let_def Split_not_Nil initState_def)
next
  show "Error (NoOutputError name) = ''no output from zdb for pool '' @ name"
    by (simp add: Error_def)
qed

theorem line_feeds_only_is_no_output_witness:
  "RunBytes (cmd (testZDB ''tank'' [newline, newline] 0)) (zdbArgs @ [''tank'']) =
     Inr ([newline, newline], []) \<and>
   GetPool (testZDB ''tank'' [newline, newline] 0) 10 20 oneEntryCache ''tank'' [] =
     \<lparr>returned = Inl (NoOutputError ''tank''), zdbCache = oneEntryCache,
      runs = [(''zdb'', [''-C'', ''tank''])]\<rparr> \<and>
   RunBytes (cmd (testZDB ''tank'' [tab, CHR 0x0D, newline, CHR 0x20] 100))
       (zdbArgs @ [''tank'']) =
     Inr ([tab, CHR 0x0D, newline, CHR 0x20], []) \<and>
   TrimSpace [tab, CHR 0x0D, newline, CHR 0x20] = [] \<and>
   GetPool (testZDB ''tank'' [tab, CHR 0x0D, newline, CHR 0x20] 100) 10 20 oneEntryCache
       ''tank'' [] =
     \<lparr>returned = Inr \<lparr>Name = ''tank'', GUID = [], Version = [], Children = []\<rparr>,
      zdbCache =
        oneEntryCache(''tank'' \<mapsto>
          \<lparr>pool = \<lparr>Name = ''tank'', GUID = [], Version = [], Children = []\<rparr>,
           guid = [], expiry = 120\<rparr>),
      runs = [(''zdb'', [''-C'', ''tank''])]\<rparr> \<and>
   Error (NoOutputError ''tank'') = ''no output from zdb for pool tank''"
proof -
  have r: "RunBytes (cmd (testZDB ''tank'' out ttl)) (zdbArgs @ [''tank'']) = Inr (out, [])"
    for out ttl
    by (simp add: RunBytes_def invocation_def testZDB_def MockRunner_def zdbArgs_def)
  have m: "cacheLookup (0 < cacheTTL (testZDB ''tank'' out ttl)) oneEntryCache
      (cacheKey ''tank'' []) 10 = None" for out ttl
    by (simp add: cacheLookup_def oneEntryCache_def cacheKey_def)
  have t: "TrimSpace [tab, CHR 0x0D, newline, CHR 0x20] = []"
    by (simp add: trim_eval)
  have c: "cacheTTL (testZDB ''tank'' out 100) = 100" "cacheKey ''tank'' [] = ''tank''" for out
    by (simp_all add: testZDB_def cacheKey_def)
  from line_feeds_only_is_no_output[OF r m, of "[newline, newline]" 0 20]
    line_feeds_only_is_no_output[OF r m, of "[tab, CHR 0x0D, newline, CHR 0x20]" 100 20] r t
  show ?thesis
    by (simp add: invocation_testZDB c)
qed

text \<open>
  C5 as stated fails for white space other than line feeds: when zdb prints a single
  space, the text is not empty after the trailing line feeds are cut, its one line is
  blank and is skipped, and the call returns a pool with no nodes instead of an error.
\<close>

theorem blank_output_is_parsed:
  "TrimSpace '' '' = [] \<and>
   GetPool (testZDB ''tank'' '' '' 0) 10 20 Map.empty ''tank'' [] =
     \<lparr>returned = Inr \<lparr>Name = ''tank'', GUID = [], Version = [], Children = []\<rparr>,
      zdbCache = Map.empty, runs = [(''zdb'', [''-C'', ''tank''])]\<rparr>"
proof -
  have t: "TrimSpace '' '' = []" by (simp add: trim_eval)
  have "zdbOutput (testZDB ''tank'' '' '' 0) (zdbArgs @ [''tank'']) = Inr ['' '']"
    by (simp add: zdbOutput_testZDB TrimRight_def)
  moreover have "lineFields '' '' = None" by (simp add: lineFields_def t)
  ultimately show ?thesis
    by (simp add: t GetPool_def Let_def cacheLookup_def testZDB_def invocation_def zdbArgs_def
        processLine_def initState_def)
qed

text \<open>
  C6. With caching enabled (TTL above zero), a call that finds an entry for its key whose
  expiry is after the time of the lookup returns the pool stored in that entry, runs no
  command and leaves the cache as it is. A call that finds no live entry and whose fetch
  and parse succeed runs zdb once and stores the result under the key, with the expiry
  at the time of the store plus the TTL.
\<close>

theorem GetPool_cache_hit_and_store:
  "(0 < cacheTTL z \<and> cache (cacheKey name currentGUID) = Some entry \<and> nowLookup < expiry entry
      \<longrightarrow> GetPool z nowLookup nowStore cache name currentGUID =
            \<lparr>returned = Inr (pool entry), zdbCache = cache, runs = []\<rparr>) \<and>
   (0 < cacheTTL z \<and>
    (\<forall>e. cache (cacheKey name currentGUID) = Some e \<longrightarrow> \<not> nowLookup < expiry e) \<and>
    returned (GetPool z nowLookup nowStore cache name currentGUID) = Inr p
      \<longrightarrow> runs (GetPool z nowLookup nowStore cache name currentGUID) =
            [invocation (cmd z) (zdbArgs @ [name])] \<and>
          zdbCache (GetPool z nowLookup nowStore cache name currentGUID) =
            cache(cacheKey name currentGUID \<mapsto>
              \<lparr>pool = p, guid = currentGUID, expiry = nowStore + cacheTTL z\<rparr>))"
  by (auto simp: GetPool_def Let_def cacheLookup_def
           split: option.splits sum.splits if_splits prod.splits)

theorem GetPool_cache_hit_and_store_witness:
  "GetPool (testZDB ''tank'' ZDBOutput 100) 4 4 oneEntryCache ''tank'' [] =
     \<lparr>returned = Inr cachedPool, zdbCache = oneEntryCache, runs = []\<rparr> \<and>
   returned (GetPool (testZDB ''tank'' ZDBOutput 100) 10 20 oneEntryCache ''tank'' []) =
     Inr \<lparr>Name = ''tank'', GUID = [], Version = ''5000'', Children = [ZDBOutputRoot]\<rparr> \<and>
   runs (GetPool (testZDB ''tank'' ZDBOutput 100) 10 20 oneEntryCache ''tank'' []) =
     [(''zdb'', [''-C'', ''tank''])] \<and>
   zdbCache (GetPool (testZDB ''tank'' ZDBOutput 100) 10 20 oneEntryCache ''tank'' []) =
     oneEntryCache(''tank'' \<mapsto>
       \<lparr>pool = \<lparr>Name = ''tank'', GUID = [], Version = ''5000'', Children = [ZDBOutputRoot]\<rparr>,
        guid = [], expiry = 120\<rparr>)"
proof -
  have key: "cacheKey ''tank'' [] = ''tank''" by (simp add: cacheKey_def)
  have ttl: "cacheTTL (testZDB ''tank'' ZDBOutput 100) = 100" by (simp add: testZDB_def)
  have miss: "cacheLookup (0 < (100::int)) oneEntryCache (cacheKey ''tank'' []) 10 = None"
    by (simp add: cacheLookup_def oneEntryCache_def key)
  note run = GetPool_testZDB_ZDBOutput[OF miss, of 20]
  have hit: "GetPool (testZDB ''tank'' ZDBOutput 100) 4 4 oneEntryCache ''tank'' [] =
     \<lparr>returned = Inr cachedPool, zdbCache = oneEntryCache, runs = []\<rparr>"
    using GetPool_cache_hit_and_store[of "testZDB ''tank'' ZDBOutput 100" oneEntryCache
        "''tank''" "[]" "\<lparr>pool = cachedPool, guid = [], expiry = 5\<rparr>" 4 4]
    by (simp add: key ttl oneEntryCache_def)
  have store: "zdbCache (GetPool (testZDB ''tank'' ZDBOutput 100) 10 20 oneEntryCache ''tank'' []) =
     oneEntryCache(''tank'' \<mapsto>
       \<lparr>pool = \<lparr>Name = ''tank'', GUID = [], Version = ''5000'', Children = [ZDBOutputRoot]\<rparr>,
        guid = [], expiry = 120\<rparr>)"
    using GetPool_cache_hit_and_store[of "testZDB ''tank'' ZDBOutput 100" oneEntryCache
        "''tank''" "[]" _ 10 20
        "\<lparr>Name = ''tank'', GUID = [], Version = ''5000'', Children = [ZDBOutputRoot]\<rparr>"]
    by (simp add: key ttl run)
  from hit store show ?thesis by (simp add: run key)
qed

text \<open>
  C7, as far as it holds. A zdb client whose TTL is zero or negative does not use the
  cache: every call runs zdb once, leaves the cache map as it is, and returns what it
  would return with any other cache and at any other time. A client made by \<open>NewClient\<close>
  has such a TTL exactly when the option \<open>ZDBCacheTTLSeconds\<close> is zero; a negative option
  stands for the default of five minutes.
\<close>

theorem cacheTTL_not_positive_disables_cache:
  "(cacheTTL z \<le> 0 \<longrightarrow>
      runs (GetPool z nowLookup nowStore cache name currentGUID) =
        [invocation (cmd z) (zdbArgs @ [name])] \<and>
      zdbCache (GetPool z nowLookup nowStore cache name currentGUID) = cache \<and>
      returned (GetPool z nowLookup nowStore cache name currentGUID) =
        returned (GetPool z nowLookup' nowStore' cache' name currentGUID)) \<and>
   (cacheTTL (ZDB (NewClient opts)) \<le> 0 \<longleftrightarrow> ZDBCacheTTLSeconds opts = 0) \<and>
   (sint (ZDBCacheTTLSeconds opts) < 0 \<longrightarrow> cacheTTL (ZDB (NewClient opts)) = 300000000000)"
proof (intro conjI impI)
  assume "cacheTTL z \<le> 0"
  then have off: "\<not> 0 < cacheTTL z" by simp
  show "runs (GetPool z nowLookup nowStore cache name currentGUID) =
        [invocation (cmd z) (zdbArgs @ [name])]"
    by (simp add: GetPool_def Let_def cacheLookup_def off split: sum.splits prod.splits)
  show "zdbCache (GetPool z nowLookup nowStore cache name currentGUID) = cache"
    by (simp add: GetPool_def Let_def cacheLookup_def off split: sum.splits prod.splits)
  show "returned (GetPool z nowLookup nowStore cache name currentGUID) =
        returned (GetPool z nowLookup' nowStore' cache' name currentGUID)"
    by (simp add: GetPool_def Let_def cacheLookup_def off split: sum.splits prod.splits)
next
  have ttl: "cacheTTL (ZDB (NewClient opts)) =
      (if sint (ZDBCacheTTLSeconds opts) < 0 then 300000000000
       else sint (ZDBCacheTTLSeconds opts) * 1000000000)"
    by (simp add: NewClient_def Let_def)
  have "sint (ZDBCacheTTLSeconds opts) = 0 \<longleftrightarrow> ZDBCacheTTLSeconds opts = 0"
    by (simp add: signed_eq_0_iff)
  then show "cacheTTL (ZDB (NewClient opts)) \<le> 0 \<longleftrightarrow> ZDBCacheTTLSeconds opts = 0"
    unfolding ttl by (auto simp: mult_le_0_iff)
  assume "sint (ZDBCacheTTLSeconds opts) < 0"
  then show "cacheTTL (ZDB (NewClient opts)) = 300000000000"
    unfolding ttl by simp
qed

theorem cacheTTL_not_positive_disables_cache_witness:
  "GetPool (testZDB ''tank'' ZDBOutput 0) 4 4 oneEntryCache ''tank'' [] =
     \<lparr>returned = Inr \<lparr>Name = ''tank'', GUID = [], Version = ''5000'', Children = [ZDBOutputRoot]\<rparr>,
      zdbCache = oneEntryCache, runs = [(''zdb'', [''-C'', ''tank''])]\<rparr> \<and>
   cacheTTL (ZDB (NewClient (testOptions 0))) \<le> 0 \<and>
   cacheTTL (ZDB (NewClient (testOptions (- 1)))) = 300000000000"
proof -
  have miss: "cacheLookup (0 < (0::int)) oneEntryCache (cacheKey ''tank'' []) 4 = None"
    by (simp add: cacheLookup_def)
  note run = GetPool_testZDB_ZDBOutput[OF miss, of 4]
  have z: "cacheTTL (testZDB ''tank'' ZDBOutput 0) \<le> 0" by (simp add: testZDB_def)
  have o: "ZDBCacheTTLSeconds (testOptions 0) = 0" "sint (ZDBCacheTTLSeconds (testOptions (- 1))) < 0"
    by (simp_all add: testOptions_def)
  from cacheTTL_not_positive_disables_cache[of "testZDB ''tank'' ZDBOutput 0" 4 4 oneEntryCache
      "''tank''" "[]" 4 4 oneEntryCache "testOptions 0"]
    cacheTTL_not_positive_disables_cache[of "testZDB ''tank'' ZDBOutput 0" 4 4 oneEntryCache
      "''tank''" "[]" 4 4 oneEntryCache "testOptions (- 1)"]
    z o run
  show ?thesis by simp
qed

text \<open>
  C7 as stated fails for a negative option: \<open>NewClient\<close> with \<open>ZDBCacheTTLSeconds = -1\<close>
  makes a client with a TTL of five minutes, whose first call stores its result and
  whose second call, within that time, is answered from the cache without running zdb.
\<close>

theorem negative_TTL_option_enables_cache:
  "sint (ZDBCacheTTLSeconds (testOptions (- 1))) \<le> 0 \<and>
   zdbCache (GetPool (ZDB (NewClient (testOptions (- 1)))) 10 20 Map.empty ''tank'' []) =
     [''tank'' \<mapsto>
       \<lparr>pool = \<lparr>Name = ''tank'', GUID = [], Version = ''5000'', Children = [ZDBOutputRoot]\<rparr>,
        guid = [], expiry = 300000000020\<rparr>] \<and>
   GetPool (ZDB (NewClient (testOptions (- 1)))) 30 40
       (zdbCache (GetPool (ZDB (NewClient (testOptions (- 1)))) 10 20 Map.empty ''tank'' []))
       ''tank'' [] =
     \<lparr>returned = Inr \<lparr>Name = ''tank'', GUID = [], Version = ''5000'', Children = [ZDBOutputRoot]\<rparr>,
      zdbCache = zdbCache (GetPool (ZDB (NewClient (testOptions (- 1)))) 10 20 Map.empty ''tank'' []),
      runs = []\<rparr>"
proof -
  have z: "ZDB (NewClient (testOptions (- 1))) = testZDB ''tank'' ZDBOutput 300000000000"
    by (simp add: NewClient_def testOptions_def testZDB_def Let_def)
  have miss: "cacheLookup (0 < (300000000000::int)) Map.empty (cacheKey ''tank'' []) 10 = None"
    by (simp add: cacheLookup_def)
  note run = GetPool_testZDB_ZDBOutput[OF miss, of 20]
  have key: "cacheKey ''tank'' [] = ''tank''" by (simp add: cacheKey_def)
  show ?thesis
    unfolding z run
    by (simp add: key testOptions_def) (simp add: GetPool_def cacheLookup_def key testZDB_def Let_def)
qed



text \<open>
  C9. A call that returns a pool after running zdb (a fresh fetch and parse, not a cache
  hit) returns it with the GUID the caller passed. No line changes the GUID of the pool
  under construction: a line leaves it as it was, whatever else it writes.
\<close>

theorem GetPool_fresh_GUID:
  "(returned (GetPool z nowLookup nowStore cache name currentGUID) = Inr p \<and>
    runs (GetPool z nowLookup nowStore cache name currentGUID) \<noteq> []
      \<longrightarrow> ZDBPool.GUID p = currentGUID) \<and>
   (processLine (q, stack) rawLine = Inr (q', stack') \<longrightarrow> ZDBPool.GUID q' = ZDBPool.GUID q) \<and>
   (parseLines (q, stack) lines = Inr (q', stack') \<longrightarrow> ZDBPool.GUID q' = ZDBPool.GUID q)"
proof (intro conjI impI)
  assume a: "returned (GetPool z nowLookup nowStore cache name currentGUID) = Inr p \<and>
    runs (GetPool z nowLookup nowStore cache name currentGUID) \<noteq> []"
  then obtain ls st where "parseLines (initState name currentGUID) ls = Inr (p, st)"
    by (auto simp: GetPool_def Let_def split: option.splits sum.splits if_splits prod.splits)
  then show "ZDBPool.GUID p = currentGUID"
    by (auto simp: initState_def dest: parseLines_GUID)
next
  assume "processLine (q, stack) rawLine = Inr (q', stack')"
  then show "ZDBPool.GUID q' = ZDBPool.GUID q" by (rule processLine_GUID)
next
  assume "parseLines (q, stack) lines = Inr (q', stack')"
  then show "ZDBPool.GUID q' = ZDBPool.GUID q" by (rule parseLines_GUID)
qed

theorem GetPool_fresh_GUID_witness:
  "returned (GetPool (testZDB ''tank'' ZDBOutput 0) 10 20 Map.empty ''tank'' ''4711'') =
     Inr \<lparr>Name = ''tank'', GUID = ''4711'', Version = ''5000'', Children = [ZDBOutputRoot]\<rparr> \<and>
   runs (GetPool (testZDB ''tank'' ZDBOutput 0) 10 20 Map.empty ''tank'' ''4711'') \<noteq> [] \<and>
   processLine (fst (initState ''tank'' ''4711''), []) ''name: zroot'' =
     Inr (\<lparr>Name = ''zroot'', GUID = ''4711'', Version = [], Children = []\<rparr>, []) \<and>
   parseLines (fst (initState ''tank'' ''4711''), []) ZDBOutputLines =
     Inr (\<lparr>Name = ''tank'', GUID = ''4711'', Version = ''5000'', Children = [ZDBOutputRoot]\<rparr>,
          [\<lparr>child = [0], indent = 1\<rparr>]) \<and>
   ZDBPool.GUID \<lparr>Name = ''tank'', GUID = ''4711'', Version = ''5000'', Children = [ZDBOutputRoot]\<rparr> =
     ZDBPool.GUID (fst (initState ''tank'' ''4711''))"
proof -
  have miss: "cacheLookup (0 < (0::int)) Map.empty (cacheKey ''tank'' ''4711'') 10 = None"
    by (simp add: cacheLookup_def)
  note run = GetPool_testZDB_ZDBOutput[OF miss, of 20]
  have lf: "lineFields ''name: zroot'' = Some (0, ''name'', ''zroot'')"
    by (simp add: lineFields_def TrimLeft_def SplitN2_def trim_eval)
  have pl: "processLine (fst (initState ''tank'' ''4711''), []) ''name: zroot'' =
     Inr (\<lparr>Name = ''zroot'', GUID = ''4711'', Version = [], Children = []\<rparr>, [])"
    by (simp add: processLine_def lf processFields_def parseLine_def initState_def)
  have ps: "parseLines (fst (initState ''tank'' ''4711''), []) ZDBOutputLines =
     Inr (\<lparr>Name = ''tank'', GUID = ''4711'', Version = ''5000'', Children = [ZDBOutputRoot]\<rparr>,
          [\<lparr>child = [0], indent = 1\<rparr>])"
    using parseLines_ZDBOutput[of "''tank''" "''4711''"] by (simp add: initState_def)
  from GetPool_fresh_GUID[of "testZDB ''tank'' ZDBOutput 0" 10 20 Map.empty "''tank''" "''4711''"
      "\<lparr>Name = ''tank'', GUID = ''4711'', Version = ''5000'', Children = [ZDBOutputRoot]\<rparr>"
      "fst (initState ''tank'' ''4711'')" "[]" "''name: zroot''"
      "\<lparr>Name = ''zroot'', GUID = ''4711'', Version = [], Children = []\<rparr>" "[]" ZDBOutputLines]
    run pl ps
  show ?thesis by (simp add: initState_def)
qed

text \<open>
  C10. The cache key does not tell identities apart: the name \<open>a|b\<close> with no GUID and the
  name \<open>a\<close> with the GUID \<open>b\<close> have the same key. With caching enabled, once a call for
  one identity has fetched, parsed and stored a pool, a call for another identity with the
  same key, made before the entry expires, returns that pool and runs no command.
\<close>

theorem cacheKey_collision:
  "cacheKey ''a|b'' [] = cacheKey ''a'' ''b'' \<and>
   (0 < cacheTTL z \<and> cacheKey name1 guid1 = cacheKey name2 guid2 \<and>
    returned (GetPool z t1 t2 cache name1 guid1) = Inr p \<and>
    runs (GetPool z t1 t2 cache name1 guid1) \<noteq> [] \<and>
    t3 < t2 + cacheTTL z
      \<longrightarrow> GetPool z t3 t4 (zdbCache (GetPool z t1 t2 cache name1 guid1)) name2 guid2 =
            \<lparr>returned = Inr p, zdbCache = zdbCache (GetPool z t1 t2 cache name1 guid1),
             runs = []\<rparr>)"
proof (intro conjI impI)
  show "cacheKey ''a|b'' [] = cacheKey ''a'' ''b''" by (simp add: cacheKey_def)
next
  assume a: "0 < cacheTTL z \<and> cacheKey name1 guid1 = cacheKey name2 guid2 \<and>
    returned (GetPool z t1 t2 cache name1 guid1) = Inr p \<and>
    runs (GetPool z t1 t2 cache name1 guid1) \<noteq> [] \<and>
    t3 < t2 + cacheTTL z"
  then have stored: "zdbCache (GetPool z t1 t2 cache name1 guid1) =
      cache(cacheKey name1 guid1 \<mapsto> \<lparr>pool = p, guid = guid1, expiry = t2 + cacheTTL z\<rparr>)"
    by (auto simp: GetPool_def Let_def split: option.splits sum.splits if_splits prod.splits)
  from a show "GetPool z t3 t4 (zdbCache (GetPool z t1 t2 cache name1 guid1)) name2 guid2 =
            \<lparr>returned = Inr p, zdbCache = zdbCache (GetPool z t1 t2 cache name1 guid1),
             runs = []\<rparr>"
    unfolding stored by (simp add: GetPool_def cacheLookup_def)
qed

theorem cacheKey_collision_witness:
  "returned (GetPool (testZDB ''a'' ZDBOutput 100) 10 20 Map.empty ''a'' ''b'') =
     Inr \<lparr>Name = ''tank'', GUID = ''b'', Version = ''5000'', Children = [ZDBOutputRoot]\<rparr> \<and>
   runs (GetPool (testZDB ''a'' ZDBOutput 100) 10 20 Map.empty ''a'' ''b'') =
     [(''zdb'', [''-C'', ''a''])] \<and>
   GetPool (testZDB ''a'' ZDBOutput 100) 50 60
       (zdbCache (GetPool (testZDB ''a'' ZDBOutput 100) 10 20 Map.empty ''a'' ''b'')) ''a|b'' [] =
     \<lparr>returned = Inr \<lparr>Name = ''tank'', GUID = ''b'', Version = ''5000'', Children = [ZDBOutputRoot]\<rparr>,
      zdbCache = zdbCache (GetPool (testZDB ''a'' ZDBOutput 100) 10 20 Map.empty ''a'' ''b''),
      runs = []\<rparr>"
proof -
  have miss: "cacheLookup (0 < (100::int)) Map.empty (cacheKey ''a'' ''b'') 10 = None"
    by (simp add: cacheLookup_def)
  note run = GetPool_testZDB_ZDBOutput[OF miss, of 20]
  have ttl: "cacheTTL (testZDB ''a'' ZDBOutput 100) = 100" by (simp add: testZDB_def)
  from cacheKey_collision[of "testZDB ''a'' ZDBOutput 100" "''a''" "''b''" "''a|b''" "[]"
      10 20 Map.empty
      "\<lparr>Name = ''tank'', GUID = ''b'', Version = ''5000'', Children = [ZDBOutputRoot]\<rparr>" 50 60]
  have "GetPool (testZDB ''a'' ZDBOutput 100) 50 60
       (zdbCache (GetPool (testZDB ''a'' ZDBOutput 100) 10 20 Map.empty ''a'' ''b'')) ''a|b'' [] =
     \<lparr>returned = Inr \<lparr>Name = ''tank'', GUID = ''b'', Version = ''5000'', Children = [ZDBOutputRoot]\<rparr>,
      zdbCache = zdbCache (GetPool (testZDB ''a'' ZDBOutput 100) 10 20 Map.empty ''a'' ''b''),
      runs = []\<rparr>"
    by (simp add: ttl run cacheKey_def)
  then show ?thesis by (simp add: run)
qed

end
